theory Spec2Isabelle
  imports Main
begin

section \<open>File discovery (\<open>findFiles\<close>) of the lint driver\<close>

text \<open>
  The development embeds the file-discovery helpers of the lint driver: \<open>globMatch\<close>,
  \<open>globSearch\<close>, \<open>throwErrorForUnmatchedPatterns\<close>, \<open>globMultiSearch\<close> and
  \<open>findFiles\<close>. Everything the helpers obtain from outside (the path module, the
  glob libraries, the file system, the configuration loader) is a field of a record
  that the functions take as an argument.
\<close>

subsection \<open>JavaScript values and containers\<close>

text \<open>
  A value that is a string or \<open>undefined\<close> is a \<open>string option\<close>; \<open>None\<close> is
  \<open>undefined\<close>.
\<close>

type_synonym jsstr = "string option"

text \<open>\<open>xs[i]\<close>: \<open>undefined\<close> outside the array.\<close>

definition js_get :: "'a list \<Rightarrow> int \<Rightarrow> 'a option" where
  "js_get xs i = (if 0 \<le> i \<and> i < int (length xs) then Some (xs ! nat i) else None)"

text \<open>\<open>xs.indexOf(x)\<close>: the first index holding \<open>x\<close>, or \<open>-1\<close>.\<close>

fun indexOf :: "'a list \<Rightarrow> 'a \<Rightarrow> int" where
  "indexOf [] x = -1"
| "indexOf (y # ys) x =
     (if y = x then 0 else (let i = indexOf ys x in if i < 0 then -1 else i + 1))"

text \<open>\<open>xs.some(p)\<close>: stops at the first element that satisfies \<open>p\<close>.\<close>

fun some :: "('a \<Rightarrow> bool) \<Rightarrow> 'a list \<Rightarrow> bool" where
  "some p [] = False"
| "some p (x # xs) = (if p x then True else some p xs)"

text \<open>
  A \<open>Map\<close> keeps its keys in the order of their first insertion; \<open>set\<close> on a key
  that is present replaces the value in place.
\<close>

type_synonym ('k, 'v) js_map = "('k \<times> 'v) list"

fun Map_set :: "'k \<Rightarrow> 'v \<Rightarrow> ('k, 'v) js_map \<Rightarrow> ('k, 'v) js_map" where
  "Map_set k v [] = [(k, v)]"
| "Map_set k v ((k', v') # m) = (if k' = k then (k, v) # m else (k', v') # Map_set k v m)"

fun Map_get :: "('k, 'v) js_map \<Rightarrow> 'k \<Rightarrow> 'v option" where
  "Map_get [] k = None"
| "Map_get ((k', v') # m) k = (if k' = k then Some v' else Map_get m k)"

definition Map_has :: "('k, 'v) js_map \<Rightarrow> 'k \<Rightarrow> bool" where
  "Map_has m k = (Map_get m k \<noteq> None)"

definition Map_keys :: "('k, 'v) js_map \<Rightarrow> 'k list" where
  "Map_keys m = map fst m"

text \<open>
  A \<open>Set\<close> is the list of its members in insertion order. \<open>new Set(xs)\<close> keeps the
  first occurrence of every element; \<open>delete\<close> removes the element.
\<close>

fun Set_add :: "'a \<Rightarrow> 'a list \<Rightarrow> 'a list" where
  "Set_add x [] = [x]"
| "Set_add x (y # ys) = (if y = x then y # ys else y # Set_add x ys)"

definition new_Set :: "'a list \<Rightarrow> 'a list" where
  "new_Set xs = fold Set_add xs []"

definition Set_delete :: "'a \<Rightarrow> 'a list \<Rightarrow> 'a list" where
  "Set_delete x s = filter (\<lambda>y. y \<noteq> x) s"

subsection \<open>Errors\<close>

text \<open>
  The three error classes of the module, and \<open>SystemError\<close> for every error that comes
  from outside it (file system, configuration loader, a \<open>TypeError\<close> of the runtime).
  Such an error has no \<open>basePath\<close> property. The pattern carried by
  \<open>NoFilesFoundError\<close> and \<open>AllFilesIgnoredError\<close> is whatever value the constructor is
  given, \<open>undefined\<close> included.
\<close>

datatype error =
    NoFilesFoundError jsstr bool
  | UnmatchedSearchPatternsError string "jsstr list" "string list" "string list"
  | AllFilesIgnoredError jsstr
  | SystemError string

subsection \<open>The outside world\<close>

datatype file_kind = RegularFile | Directory | OtherKind

text \<open>\<open>stat.isFile()\<close> and \<open>stat.isDirectory()\<close> test the one file type of a stat result.\<close>

definition isFile :: "file_kind \<Rightarrow> bool" where
  "isFile k = (k = RegularFile)"

definition isDirectory :: "file_kind \<Rightarrow> bool" where
  "isDirectory k = (k = Directory)"

text \<open>
  What reading a directory gives: its entries, each with the result of reading it in
  turn when it is a directory, or an error. A directory that has vanished (\<open>ENOENT\<close>)
  reads as \<open>Listing []\<close>, which is what the walker makes of it.
\<close>

datatype fs_entry = FsEntry (entry_name: string) (entry_isDirectory: bool) (entry_read: dir_read)
  and dir_read = Listing "fs_entry list" | ReadFails string

text \<open>A compiled \<open>Minimatch\<close>: its \<open>pattern\<close> property and \<open>match(path, partial)\<close>.\<close>

record matcher =
  pattern :: string
  match :: "string \<Rightarrow> bool \<Rightarrow> bool"

record env =
  sep :: string
  resolve :: "string \<Rightarrow> string \<Rightarrow> string"
  relative :: "string \<Rightarrow> string \<Rightarrow> string"
  isGlob :: "string \<Rightarrow> bool"
  globParent :: "string \<Rightarrow> string"
  Minimatch :: "string \<Rightarrow> matcher"
  stat :: "string \<Rightarrow> file_kind option"
  hfs_isDirectory :: "string \<Rightarrow> string + bool"
  hfs_list :: "string \<Rightarrow> dir_read"

text \<open>
  \<open>sep\<close>, \<open>resolve\<close>, \<open>relative\<close>: \<open>path.sep\<close>, \<open>path.resolve(a, b)\<close>,
  \<open>path.relative(a, b)\<close>. \<open>isGlob\<close>, \<open>globParent\<close>: the two glob libraries.
  \<open>Minimatch p\<close>: \<open>new Minimatch(p, { dot: true })\<close>. \<open>stat p\<close>:
  \<open>fsp.stat(p).catch(() => {})\<close>, \<open>None\<close> when the stat is rejected.
  \<open>hfs_isDirectory\<close>: \<open>hfs.isDirectory\<close>, which may reject. \<open>hfs_list p\<close>: the
  directory tree below \<open>p\<close> as the walker reads it.
\<close>

datatype config = Config string

text \<open>
  The configuration loader. \<open>isDirectoryIgnored p\<close> is
  \<open>(await loadConfigArrayForDirectory(p)).isDirectoryIgnored(p)\<close> and \<open>getConfig p\<close> is
  \<open>(await loadConfigArrayForFile(p)).getConfig(p)\<close>; \<open>Inl\<close> is the error either call
  throws, \<open>Inr None\<close> the answer \<open>undefined\<close>.
\<close>

record configLoader =
  isDirectoryIgnored :: "string \<Rightarrow> string + bool"
  getConfig :: "string \<Rightarrow> string + config option"

subsection \<open>The directory walker\<close>

record walk_entry =
  path :: string
  entry_is_dir :: bool
  depth :: nat

type_synonym 'st walk_filter = "walk_entry \<Rightarrow> 'st \<Rightarrow> error + (bool \<times> 'st)"

text \<open>
  The entry the walker hands to the filters, for the directory entry \<open>n\<close> found at
  depth \<open>d\<close> below the directory of relative path \<open>parentPath\<close>.
\<close>

definition walkEntry_of :: "string \<Rightarrow> nat \<Rightarrow> string \<Rightarrow> bool \<Rightarrow> walk_entry" where
  "walkEntry_of parentPath d n isDir =
     \<lparr>path = (if parentPath \<noteq> [] then parentPath @ ''/'' @ n else n), entry_is_dir = isDir, depth = d\<rparr>"

text \<open>
  Modelled from the spec: \<open>hfs.walk\<close>, the asynchronous generator of the file-system
  library, whose source is not part of the repository. It reads the directory it is
  given without asking a filter, and for every entry, in order, calls the entry filter
  (yielding the entry when the answer is true) and then, for a directory, the
  directory filter (reading the directory and walking its entries when the answer is
  true). An entry's \<open>path\<close> is relative to the root, with forward slashes
  (\<open>walkEntry_of\<close>).

  The filters are closures over mutable variables: here they take the state and return
  it. The generator is the list of its yields, each with the state at the moment of
  the yield, and the way it ends: the state, or the error it throws.
\<close>

fun walk_list :: "'st walk_filter \<Rightarrow> 'st walk_filter \<Rightarrow> string \<Rightarrow> nat \<Rightarrow> fs_entry list \<Rightarrow> 'st
      \<Rightarrow> (walk_entry \<times> 'st) list \<times> (error + 'st)"
  and walk_dir :: "'st walk_filter \<Rightarrow> 'st walk_filter \<Rightarrow> string \<Rightarrow> nat \<Rightarrow> dir_read \<Rightarrow> 'st
      \<Rightarrow> (walk_entry \<times> 'st) list \<times> (error + 'st)" where
  "walk_list directoryFilter entryFilter parentPath d [] st = ([], Inr st)"
| "walk_list directoryFilter entryFilter parentPath d (FsEntry n isDir rd # rest) st =
     (let walkEntry = walkEntry_of parentPath d n isDir
      in case entryFilter walkEntry st of
           Inl e \<Rightarrow> ([], Inl e)
         | Inr (shouldEmitEntry, st1) \<Rightarrow>
             (let ys = (if shouldEmitEntry then [(walkEntry, st1)] else [])
              in if isDir then
                   (case directoryFilter walkEntry st1 of
                      Inl e \<Rightarrow> (ys, Inl e)
                    | Inr (shouldWalkDirectory, st2) \<Rightarrow>
                        if \<not> shouldWalkDirectory then
                          (case walk_list directoryFilter entryFilter parentPath d rest st2 of
                             (zs, r) \<Rightarrow> (ys @ zs, r))
                        else
                          (case walk_dir directoryFilter entryFilter (path walkEntry) (d + 1) rd st2 of
                             (ws, Inl e) \<Rightarrow> (ys @ ws, Inl e)
                           | (ws, Inr st3) \<Rightarrow>
                               (case walk_list directoryFilter entryFilter parentPath d rest st3 of
                                  (zs, r) \<Rightarrow> (ys @ ws @ zs, r))))
                 else
                   (case walk_list directoryFilter entryFilter parentPath d rest st1 of
                      (zs, r) \<Rightarrow> (ys @ zs, r))))"
| "walk_dir directoryFilter entryFilter parentPath d (ReadFails e) st = ([], Inl (SystemError e))"
| "walk_dir directoryFilter entryFilter parentPath d (Listing es) st =
     walk_list directoryFilter entryFilter parentPath d es st"

definition walk :: "env \<Rightarrow> string \<Rightarrow> 'st walk_filter \<Rightarrow> 'st walk_filter \<Rightarrow> 'st
      \<Rightarrow> (walk_entry \<times> 'st) list \<times> (error + 'st)" where
  "walk E dirPath directoryFilter entryFilter st =
     walk_dir directoryFilter entryFilter [] 1 (hfs_list E dirPath) st"

text \<open>
  \<open>for await (const entry of walk)\<close>: all the yields and the final state, or the error
  the generator ends with.
\<close>

definition for_await :: "(walk_entry \<times> 'st) list \<times> (error + 'st) \<Rightarrow> error + (walk_entry list \<times> 'st)" where
  "for_await w = (case snd w of Inl e \<Rightarrow> Inl e | Inr st \<Rightarrow> Inr (map fst (fst w), st))"

text \<open>
  \<open>walk.next()\<close>, once: the generator runs to its first yield, or to its end; the
  result is the state then. What would follow the first yield never runs.
\<close>

definition next_once :: "(walk_entry \<times> 'st) list \<times> (error + 'st) \<Rightarrow> error + 'st" where
  "next_once w = (case fst w of (e, st) # _ \<Rightarrow> Inr st | [] \<Rightarrow> snd w)"

subsection \<open>File-related helpers\<close>

definition normalizeToPosix :: "string \<Rightarrow> string" where
  "normalizeToPosix p = map (\<lambda>c. if c = CHR 0x5C then CHR ''/'' else c) p"

definition isGlobPattern :: "env \<Rightarrow> string \<Rightarrow> bool" where
  "isGlobPattern E p = isGlob E (if sep E = [CHR 0x5C] then normalizeToPosix p else p)"

subsection \<open>\<open>globMatch\<close>\<close>

text \<open>The state of the two filters of \<open>globMatch\<close> is the variable \<open>found\<close>.\<close>

definition globMatch_directoryFilter :: "matcher \<Rightarrow> bool walk_filter" where
  "globMatch_directoryFilter m entry found = Inr (\<not> found \<and> match m (path entry) True, found)"

definition globMatch_entryFilter :: "matcher \<Rightarrow> bool walk_filter" where
  "globMatch_entryFilter m entry found =
     (if found \<or> entry_is_dir entry then Inr (False, found)
      else if match m (path entry) False then Inr (True, True)
      else Inr (False, found))"

text \<open>The generator \<open>hfs.walk(basePath, walkSettings)\<close> of \<open>globMatch\<close>, started with \<open>found = false\<close>.\<close>

definition globMatch_walk :: "env \<Rightarrow> string \<Rightarrow> string \<Rightarrow> (walk_entry \<times> bool) list \<times> (error + bool)" where
  "globMatch_walk E basePath p =
     (let patternToUse = normalizeToPosix (relative E basePath p);
          m = Minimatch E patternToUse
      in walk E basePath (globMatch_directoryFilter m) (globMatch_entryFilter m) False)"

text \<open>
  The pattern may be \<open>undefined\<close> (see \<open>throwErrorForUnmatchedPatterns\<close>);
  \<open>path.relative\<close> then throws a \<open>TypeError\<close>.
\<close>

definition globMatch :: "env \<Rightarrow> string \<Rightarrow> jsstr \<Rightarrow> error + bool" where
  "globMatch E basePath pat =
     (case pat of
        None \<Rightarrow> Inl (SystemError ''TypeError'')
      | Some p \<Rightarrow>
          (case hfs_isDirectory E basePath of
             Inl e \<Rightarrow> Inl (SystemError e)
           | Inr isDir \<Rightarrow>
               if isDir then next_once (globMatch_walk E basePath p)
               else Inr False))"

subsection \<open>\<open>globSearch\<close>\<close>

text \<open>
  The state of the two filters of \<open>globSearch\<close> is the set \<open>unmatchedPatterns\<close>. A
  configuration is an object or \<open>undefined\<close>, so the tests \<open>config\<close> and
  \<open>config !== void 0\<close> are both \<open>config \<noteq> None\<close>.
\<close>

definition directoryFilter :: "env \<Rightarrow> configLoader \<Rightarrow> string \<Rightarrow> matcher list \<Rightarrow> string list walk_filter" where
  "directoryFilter E loader basePath matchers entry unmatchedPatterns =
     (if \<not> some (\<lambda>m. match m (path entry) True) matchers then Inr (False, unmatchedPatterns)
      else
        (let absolutePath = resolve E basePath (path entry)
         in case isDirectoryIgnored loader absolutePath of
              Inl e \<Rightarrow> Inl (SystemError e)
            | Inr ignored \<Rightarrow> Inr (\<not> ignored, unmatchedPatterns)))"

text \<open>The \<open>reduce\<close> over the matchers: the accumulator and the set it updates.\<close>

definition reduce_step :: "string \<Rightarrow> config option \<Rightarrow> bool \<times> string list \<Rightarrow> matcher \<Rightarrow> bool \<times> string list" where
  "reduce_step p config acc m =
     (let pathMatches = match m p False
      in (pathMatches \<or> fst acc,
          if pathMatches \<and> config \<noteq> None then Set_delete (pattern m) (snd acc) else snd acc))"

definition entryFilter :: "env \<Rightarrow> configLoader \<Rightarrow> string \<Rightarrow> matcher list \<Rightarrow> string list walk_filter" where
  "entryFilter E loader basePath matchers entry unmatchedPatterns =
     (let absolutePath = resolve E basePath (path entry)
      in if entry_is_dir entry then Inr (False, unmatchedPatterns)
         else
           (case getConfig loader absolutePath of
              Inl e \<Rightarrow> Inl (SystemError e)
            | Inr config \<Rightarrow>
                (let r = (if 0 < length unmatchedPatterns
                          then foldl (reduce_step (path entry) config) (False, unmatchedPatterns) matchers
                          else (some (\<lambda>m. match m (path entry) False) matchers, unmatchedPatterns))
                 in Inr (fst r \<and> config \<noteq> None, snd r))))"

text \<open>
  \<open>patternToUse\<close> for every pattern, and the matchers compiled from them
  (\<open>patterns.map(...)\<close> at the head of \<open>globSearch\<close>).
\<close>

definition patternsToUse :: "env \<Rightarrow> string \<Rightarrow> string list \<Rightarrow> string list" where
  "patternsToUse E basePath patterns = map (\<lambda>p. normalizeToPosix (relative E basePath p)) patterns"

definition compile_matchers :: "env \<Rightarrow> string \<Rightarrow> string list \<Rightarrow> matcher list" where
  "compile_matchers E basePath patterns = map (Minimatch E) (patternsToUse E basePath patterns)"

definition relativeToPatterns :: "env \<Rightarrow> string \<Rightarrow> string list \<Rightarrow> (string, string) js_map" where
  "relativeToPatterns E basePath patterns =
     fold (\<lambda>(k, v). Map_set k v) (zip (patternsToUse E basePath patterns) patterns) []"

text \<open>The generator \<open>walk\<close> of \<open>globSearch\<close>, started on the set of all relative patterns.\<close>

definition globSearch_walk :: "env \<Rightarrow> configLoader \<Rightarrow> string \<Rightarrow> string list
      \<Rightarrow> (walk_entry \<times> string list) list \<times> (error + string list)" where
  "globSearch_walk E loader basePath patterns =
     walk E basePath (directoryFilter E loader basePath (compile_matchers E basePath patterns))
       (entryFilter E loader basePath (compile_matchers E basePath patterns))
       (new_Set (Map_keys (relativeToPatterns E basePath patterns)))"

definition globSearch :: "env \<Rightarrow> configLoader \<Rightarrow> string \<Rightarrow> string list \<Rightarrow> string list \<Rightarrow> bool
      \<Rightarrow> error + string list" where
  "globSearch E loader basePath patterns rawPatterns errorOnUnmatchedPattern =
     (if length patterns = 0 then Inr []
      else
        (case hfs_isDirectory E basePath of
           Inl e \<Rightarrow> Inl (SystemError e)
         | Inr isDir \<Rightarrow>
             (case (if isDir then for_await (globSearch_walk E loader basePath patterns)
                    else Inr ([], new_Set (Map_keys (relativeToPatterns E basePath patterns)))) of
                Inl e \<Rightarrow> Inl e
              | Inr (found, unmatched) \<Rightarrow>
                  (let filePaths = map (\<lambda>entry. resolve E basePath (path entry)) found
                   in if errorOnUnmatchedPattern \<and> 0 < length unmatched
                      then Inl (UnmatchedSearchPatternsError basePath
                                  (map (Map_get (relativeToPatterns E basePath patterns)) unmatched)
                                  patterns rawPatterns)
                      else Inr filePaths))))"

subsection \<open>\<open>throwErrorForUnmatchedPatterns\<close> and \<open>globMultiSearch\<close>\<close>

text \<open>The function always throws: its value is the error thrown.\<close>

definition throwErrorForUnmatchedPatterns :: "env \<Rightarrow> string \<Rightarrow> string list \<Rightarrow> string list \<Rightarrow> jsstr list \<Rightarrow> error" where
  "throwErrorForUnmatchedPatterns E basePath patterns rawPatterns unmatchedPatterns =
     (let pat = Option.bind (js_get unmatchedPatterns 0) id;
          rawPattern = js_get rawPatterns (indexOf (map Some patterns) pat)
      in case globMatch E basePath pat of
           Inl e \<Rightarrow> e
         | Inr patternHasMatch \<Rightarrow>
             if patternHasMatch then AllFilesIgnoredError rawPattern
             else NoFilesFoundError rawPattern True)"

type_synonym search = "string \<times> string list \<times> string list"

text \<open>
  The first loop of \<open>globMultiSearch\<close> over the settled results: \<open>Some\<close> is the error
  it throws. Of the errors, only an \<open>UnmatchedSearchPatternsError\<close> has a \<open>basePath\<close>,
  which is falsy when it is the empty string.
\<close>

fun rejected_loop :: "env \<Rightarrow> bool \<Rightarrow> ((error + string list) \<times> search) list \<Rightarrow> error option" where
  "rejected_loop E errorOnUnmatchedPattern [] = None"
| "rejected_loop E errorOnUnmatchedPattern ((Inr v, currentSearch) # rest) =
     rejected_loop E errorOnUnmatchedPattern rest"
| "rejected_loop E errorOnUnmatchedPattern ((Inl err, (basePath, patterns, rawPatterns)) # rest) =
     (case err of
        UnmatchedSearchPatternsError b unmatched ps rs \<Rightarrow>
          if b = [] then Some err
          else if errorOnUnmatchedPattern
            then Some (throwErrorForUnmatchedPatterns E basePath patterns rawPatterns unmatched)
          else rejected_loop E errorOnUnmatchedPattern rest
      | _ \<Rightarrow> Some err)"

text \<open>
  \<open>results.flatMap(result => result.value)\<close>: the \<open>value\<close> of a rejected result is
  \<open>undefined\<close>, which \<open>flatMap\<close> keeps as an element.
\<close>

definition flatMap_value :: "(error + string list) list \<Rightarrow> jsstr list" where
  "flatMap_value rs = concat (map (\<lambda>r. case r of Inr v \<Rightarrow> map Some v | Inl e \<Rightarrow> [None]) rs)"

definition normalizedSearches :: "(string, string list \<times> string list) js_map \<Rightarrow> search list" where
  "normalizedSearches searches = filter (\<lambda>(basePath, patterns, rawPatterns). 0 < length patterns) searches"

definition globMultiSearch :: "env \<Rightarrow> configLoader \<Rightarrow> (string, string list \<times> string list) js_map \<Rightarrow> bool
      \<Rightarrow> error + jsstr list" where
  "globMultiSearch E loader searches errorOnUnmatchedPattern =
     (let ns = normalizedSearches searches;
          rs = map (\<lambda>(basePath, patterns, rawPatterns).
                      globSearch E loader basePath patterns rawPatterns errorOnUnmatchedPattern) ns
      in case rejected_loop E errorOnUnmatchedPattern (zip rs ns) of
           Some e \<Rightarrow> Inl e
         | None \<Rightarrow> Inr (flatMap_value rs))"

subsection \<open>\<open>findFiles\<close>\<close>

record find_state =
  results :: "string list"
  missingPatterns :: "string list"
  searches :: "(string, string list \<times> string list) js_map"

text \<open>
  \<open>if (!searches.has(key)) searches.set(key, { patterns: [], rawPatterns: [] })\<close>, then a
  push onto each of the two arrays of \<open>searches.get(key)\<close>.
\<close>

definition push_search :: "string \<Rightarrow> string \<Rightarrow> string \<Rightarrow> (string, string list \<times> string list) js_map
      \<Rightarrow> (string, string list \<times> string list) js_map" where
  "push_search key p raw m =
     (let m1 = (if \<not> Map_has m key then Map_set key ([], []) m else m)
      in case Map_get m1 key of
           Some (globbyPatterns, rawPatterns) \<Rightarrow> Map_set key (globbyPatterns @ [p], rawPatterns @ [raw]) m1
         | None \<Rightarrow> m1)"

text \<open>The body of \<open>stats.forEach\<close>, for one pattern, its resolved path and its stat.\<close>

definition forEach_body :: "env \<Rightarrow> bool \<Rightarrow> string \<Rightarrow> file_kind option \<times> string \<times> string \<Rightarrow> find_state \<Rightarrow> find_state" where
  "forEach_body E globInputPaths cwd x st =
     (case x of (st_result, filePath, p) \<Rightarrow>
        (let pat = normalizeToPosix p
         in case st_result of
              Some s \<Rightarrow>
                (let st1 = (if isFile s then st\<lparr>results := results st @ [filePath]\<rparr> else st)
                 in if isDirectory s
                    then st1\<lparr>searches := push_search filePath (normalizeToPosix filePath @ ''/**'') pat (searches st1)\<rparr>
                    else st1)
            | None \<Rightarrow>
                if globInputPaths \<and> isGlobPattern E pat
                then (let basePath = resolve E cwd (globParent E pat)
                      in st\<lparr>searches := push_search basePath filePath pat (searches st)\<rparr>)
                else st\<lparr>missingPatterns := missingPatterns st @ [pat]\<rparr>))"

definition stats_forEach :: "env \<Rightarrow> bool \<Rightarrow> string \<Rightarrow> string list \<Rightarrow> find_state" where
  "stats_forEach E globInputPaths cwd patterns =
     (let filePaths = map (resolve E cwd) patterns;
          stats = map (stat E) filePaths
      in fold (forEach_body E globInputPaths cwd) (zip stats (zip filePaths patterns))
           \<lparr>results = [], missingPatterns = [], searches = [(cwd, ([], []))]\<rparr>)"

definition findFiles :: "env \<Rightarrow> configLoader \<Rightarrow> string list \<Rightarrow> bool \<Rightarrow> string \<Rightarrow> bool \<Rightarrow> error + jsstr list" where
  "findFiles E loader patterns globInputPaths cwd errorOnUnmatchedPattern =
     (let st = stats_forEach E globInputPaths cwd patterns
      in if errorOnUnmatchedPattern \<and> 0 < length (missingPatterns st)
         then Inl (NoFilesFoundError (js_get (missingPatterns st) 0) globInputPaths)
         else
           (case globMultiSearch E loader (searches st) errorOnUnmatchedPattern of
              Inl e \<Rightarrow> Inl e
            | Inr globbyResults \<Rightarrow> Inr (new_Set (map Some (results st) @ globbyResults))))"

subsection \<open>Predicates for reasoning about a walk\<close>

text \<open>
  One induction over the walk serves every property below: \<open>P\<close> holds of the state
  throughout, \<open>Q\<close> of every yield, \<open>R\<close> of the error the walk may end with.
\<close>

definition filter_ok :: "('st \<Rightarrow> bool) \<Rightarrow> (walk_entry \<Rightarrow> 'st \<Rightarrow> bool) \<Rightarrow> (error \<Rightarrow> bool) \<Rightarrow> 'st walk_filter \<Rightarrow> bool" where
  "filter_ok P Q R f =
     (\<forall>e s. P s \<longrightarrow> (case f e s of Inl err \<Rightarrow> R err | Inr (b, s') \<Rightarrow> P s' \<and> (b \<longrightarrow> Q e s')))"

definition walk_ok :: "('st \<Rightarrow> bool) \<Rightarrow> (walk_entry \<Rightarrow> 'st \<Rightarrow> bool) \<Rightarrow> (error \<Rightarrow> bool)
      \<Rightarrow> (walk_entry \<times> 'st) list \<times> (error + 'st) \<Rightarrow> bool" where
  "walk_ok P Q R w =
     ((\<forall>y\<in>set (fst w). P (snd y) \<and> Q (fst y) (snd y)) \<and>
      (case snd w of Inl err \<Rightarrow> R err | Inr s' \<Rightarrow> P s'))"

subsection \<open>A concrete world for evaluation\<close>

text \<open>
  The working directory \<open>/r\<close> holds \<open>a/x.js\<close>, \<open>a/y.txt\<close>, \<open>b/z.js\<close>,
  \<open>c/d/w.js\<close>, \<open>c/d/.hidden.js\<close> and a socket \<open>sock\<close>. The loader ignores the
  directory \<open>b\<close> and has no configuration for \<open>a/y.txt\<close>. The path and glob
  functions are small stand-ins that agree with the real ones on the paths used.
\<close>

definition ends_with :: "string \<Rightarrow> string \<Rightarrow> bool" where
  "ends_with suffix p = (drop (length p - length suffix) p = suffix)"

definition match0 :: "string \<Rightarrow> string \<Rightarrow> bool \<Rightarrow> bool" where
  "match0 pat p partial =
     (if pat = ''**'' then True
      else if pat = ''**/*.js'' then partial \<or> ends_with ''.js'' p
      else if pat = ''**/*.py'' then partial \<or> ends_with ''.py'' p
      else if pat = ''*.txt'' then \<not> partial \<and> ends_with ''.txt'' p \<and> CHR ''/'' \<notin> set p
      else False)"

definition Minimatch0 :: "string \<Rightarrow> matcher" where
  "Minimatch0 pat = \<lparr>pattern = pat, match = match0 pat\<rparr>"

definition resolve0 :: "string \<Rightarrow> string \<Rightarrow> string" where
  "resolve0 c p = (if p = ''.'' then c else if take 1 p = ''/'' then p else c @ ''/'' @ p)"

definition relative0 :: "string \<Rightarrow> string \<Rightarrow> string" where
  "relative0 b p = (if take (length b + 1) p = b @ ''/'' then drop (length b + 1) p else p)"

definition globParent0 :: "string \<Rightarrow> string" where
  "globParent0 p =
     (if take 2 p = ''b/'' then ''b'' else if take 2 p = ''a/'' then ''a''
      else if take 2 p = ''z/'' then ''z'' else ''.'')"

definition tree0 :: "fs_entry list" where
  "tree0 =
     [FsEntry ''a'' True (Listing [FsEntry ''x.js'' False (Listing []), FsEntry ''y.txt'' False (Listing [])]),
      FsEntry ''b'' True (Listing [FsEntry ''z.js'' False (Listing [])]),
      FsEntry ''c'' True (Listing [FsEntry ''d'' True
         (Listing [FsEntry ''w.js'' False (Listing []), FsEntry ''.hidden.js'' False (Listing [])])]),
      FsEntry ''sock'' False (Listing [])]"

definition stat0 :: "string \<Rightarrow> file_kind option" where
  "stat0 p =
     (if p \<in> set [''/r'', ''/r/a'', ''/r/b'', ''/r/c'', ''/r/c/d''] then Some Directory
      else if p \<in> set [''/r/a/x.js'', ''/r/a/y.txt'', ''/r/b/z.js'', ''/r/c/d/w.js'', ''/r/c/d/.hidden.js'']
        then Some RegularFile
      else if p = ''/r/sock'' then Some OtherKind
      else None)"

definition list0 :: "string \<Rightarrow> dir_read" where
  "list0 p =
     (if p = ''/r'' then Listing tree0
      else if p = ''/r/a'' then Listing [FsEntry ''x.js'' False (Listing []), FsEntry ''y.txt'' False (Listing [])]
      else if p = ''/r/b'' then Listing [FsEntry ''z.js'' False (Listing [])]
      else Listing [])"

definition E0 :: env where
  "E0 = \<lparr>sep = ''/'', resolve = resolve0, relative = relative0,
          isGlob = (\<lambda>p. CHR ''*'' \<in> set p), globParent = globParent0, Minimatch = Minimatch0,
          stat = stat0, hfs_isDirectory = (\<lambda>p. Inr (stat0 p = Some Directory)), hfs_list = list0\<rparr>"

definition L0 :: configLoader where
  "L0 = \<lparr>isDirectoryIgnored = (\<lambda>p. Inr (p = ''/r/b'')),
          getConfig = (\<lambda>p. Inr (if p = ''/r/a/y.txt'' then None else Some (Config ''default'')))\<rparr>"

text \<open>
  The states of a walk only shrink: every yield carries a subset of the state before
  it, of the state of every earlier yield, and the final state is a subset of all of
  them.
\<close>

definition filter_shrinks :: "'a list walk_filter \<Rightarrow> bool" where
  "filter_shrinks f = (\<forall>e s b s'. f e s = Inr (b, s') \<longrightarrow> set s' \<subseteq> set s)"

definition walk_shrinks :: "'a list \<Rightarrow> (walk_entry \<times> 'a list) list \<times> (error + 'a list) \<Rightarrow> bool" where
  "walk_shrinks st w =
     (sorted_wrt (\<lambda>y z. set (snd z) \<subseteq> set (snd y)) (fst w) \<and>
      (\<forall>y\<in>set (fst w). set (snd y) \<subseteq> set st) \<and>
      (\<forall>s'. snd w = Inr s' \<longrightarrow> set s' \<subseteq> set st \<and> (\<forall>y\<in>set (fst w). set s' \<subseteq> set (snd y))))"

text \<open>
  Deduplication that keeps the first occurrence of every element, as the specification
  words it; \<open>new_Set\<close> above is what the code does.
\<close>

function dedupe_first :: "'a list \<Rightarrow> 'a list" where
  "dedupe_first [] = []"
| "dedupe_first (x # xs) = x # dedupe_first (filter (\<lambda>y. y \<noteq> x) xs)"
  by pat_completeness auto
termination
  by (relation "measure length") (auto simp: less_Suc_eq_le)

text \<open>A pattern with a backslash, which names no file in the concrete world.\<close>

definition backslash_pattern :: string where
  "backslash_pattern = [CHR ''d'', CHR 0x5C, CHR ''e'']"

text \<open>
  A loader that throws for \<open>a/x.js\<close>, and a world in which the directory \<open>b\<close>, which
  the loader \<open>L0\<close> ignores, cannot be read.
\<close>

definition L1 :: configLoader where
  "L1 = \<lparr>isDirectoryIgnored = (\<lambda>p. Inr False),
          getConfig = (\<lambda>p. if p = ''/r/a/x.js'' then Inl ''EBADCONFIG'' else Inr (Some (Config ''default'')))\<rparr>"

definition E1 :: env where
  "E1 = E0\<lparr>hfs_list := (\<lambda>p. if p = ''/r'' then Listing [FsEntry ''b'' True (ReadFails ''EACCES'')]
                              else Listing [])\<rparr>"

text \<open>A filter that changes the state only when it answers true.\<close>

definition filter_quiet :: "'st walk_filter \<Rightarrow> bool" where
  "filter_quiet f = (\<forall>e s b s'. f e s = Inr (b, s') \<longrightarrow> \<not> b \<longrightarrow> s' = s)"

definition filter_const :: "'st walk_filter \<Rightarrow> bool" where
  "filter_const f = (\<forall>e s b s'. f e s = Inr (b, s') \<longrightarrow> s' = s)"

text \<open>
  The entries that a walk which runs to its end hands to the entry filter, in order,
  when the directory filter answers \<open>D\<close>: every entry of the directory walked and,
  after a directory for which \<open>D\<close> holds, the entries below it.
\<close>

fun visited_list :: "(walk_entry \<Rightarrow> bool) \<Rightarrow> string \<Rightarrow> nat \<Rightarrow> fs_entry list \<Rightarrow> walk_entry list"
  and visited_dir :: "(walk_entry \<Rightarrow> bool) \<Rightarrow> string \<Rightarrow> nat \<Rightarrow> dir_read \<Rightarrow> walk_entry list" where
  "visited_list D parentPath d [] = []"
| "visited_list D parentPath d (FsEntry n isDir rd # rest) =
     walkEntry_of parentPath d n isDir #
       (if isDir \<and> D (walkEntry_of parentPath d n isDir)
        then visited_dir D (path (walkEntry_of parentPath d n isDir)) (d + 1) rd else [])
       @ visited_list D parentPath d rest"
| "visited_dir D parentPath d (ReadFails e) = []"
| "visited_dir D parentPath d (Listing es) = visited_list D parentPath d es"

text \<open>A filter whose answer, when it answers, is \<open>A\<close> of the entry, whatever the state.\<close>

definition filter_answers :: "(walk_entry \<Rightarrow> bool) \<Rightarrow> 'st walk_filter \<Rightarrow> bool" where
  "filter_answers A f = (\<forall>e s b s'. f e s = Inr (b, s') \<longrightarrow> b = A e)"

text \<open>
  The two rules of a group walk as the specification words them: an entry is accepted
  when it is not a directory, some compiled matcher matches its relative path and the
  loader has a configuration for its absolute path (F-3); a directory is entered when
  some compiled matcher prefix-matches its relative path and the loader does not report
  its absolute path ignored (D-2, D-3).
\<close>

definition entry_accepted :: "env \<Rightarrow> configLoader \<Rightarrow> string \<Rightarrow> matcher list \<Rightarrow> walk_entry \<Rightarrow> bool" where
  "entry_accepted E loader basePath ms e =
     (\<not> entry_is_dir e \<and> (\<exists>m\<in>set ms. match m (path e) False) \<and>
      (\<exists>c. getConfig loader (resolve E basePath (path e)) = Inr (Some c)))"

definition directory_entered :: "env \<Rightarrow> configLoader \<Rightarrow> string \<Rightarrow> matcher list \<Rightarrow> walk_entry \<Rightarrow> bool" where
  "directory_entered E loader basePath ms e =
     ((\<exists>m\<in>set ms. match m (path e) True) \<and>
      isDirectoryIgnored loader (resolve E basePath (path e)) = Inr False)"

text \<open>
  The error with which a walk ends, if any: the first failure in visiting order, when
  the entry filter fails as \<open>EF\<close> says, the directory filter fails as \<open>DF\<close> says and
  answers \<open>D\<close>, and reading a directory fails as the tree says.
\<close>

fun first_error_list :: "(walk_entry \<Rightarrow> error option) \<Rightarrow> (walk_entry \<Rightarrow> error option) \<Rightarrow> (walk_entry \<Rightarrow> bool)
      \<Rightarrow> string \<Rightarrow> nat \<Rightarrow> fs_entry list \<Rightarrow> error option"
  and first_error_dir :: "(walk_entry \<Rightarrow> error option) \<Rightarrow> (walk_entry \<Rightarrow> error option) \<Rightarrow> (walk_entry \<Rightarrow> bool)
      \<Rightarrow> string \<Rightarrow> nat \<Rightarrow> dir_read \<Rightarrow> error option" where
  "first_error_list EF DF D parentPath d [] = None"
| "first_error_list EF DF D parentPath d (FsEntry n isDir rd # rest) =
     (case EF (walkEntry_of parentPath d n isDir) of
        Some e \<Rightarrow> Some e
      | None \<Rightarrow>
          if \<not> isDir then first_error_list EF DF D parentPath d rest
          else
            (case DF (walkEntry_of parentPath d n isDir) of
               Some e \<Rightarrow> Some e
             | None \<Rightarrow>
                 if \<not> D (walkEntry_of parentPath d n isDir) then first_error_list EF DF D parentPath d rest
                 else
                   (case first_error_dir EF DF D (path (walkEntry_of parentPath d n isDir)) (d + 1) rd of
                      Some e \<Rightarrow> Some e
                    | None \<Rightarrow> first_error_list EF DF D parentPath d rest)))"
| "first_error_dir EF DF D parentPath d (ReadFails msg) = Some (SystemError msg)"
| "first_error_dir EF DF D parentPath d (Listing es) = first_error_list EF DF D parentPath d es"

text \<open>A filter that fails exactly as \<open>F\<close> says of the entry, whatever the state.\<close>

definition filter_fails :: "(walk_entry \<Rightarrow> error option) \<Rightarrow> 'st walk_filter \<Rightarrow> bool" where
  "filter_fails F f = (\<forall>e s. (case f e s of Inl err \<Rightarrow> F e = Some err | Inr r \<Rightarrow> F e = None))"

text \<open>
  The failures of the two filters of \<open>globSearch\<close>: the error of the loader, asked for
  the configuration of an entry that is not a directory, or asked whether a directory
  that some matcher prefix-matches is ignored.
\<close>

definition entry_error :: "env \<Rightarrow> configLoader \<Rightarrow> string \<Rightarrow> walk_entry \<Rightarrow> error option" where
  "entry_error E loader basePath e =
     (if entry_is_dir e then None
      else case getConfig loader (resolve E basePath (path e)) of
             Inl msg \<Rightarrow> Some (SystemError msg)
           | Inr c \<Rightarrow> None)"

definition directory_error :: "env \<Rightarrow> configLoader \<Rightarrow> string \<Rightarrow> matcher list \<Rightarrow> walk_entry \<Rightarrow> error option" where
  "directory_error E loader basePath ms e =
     (if \<exists>m\<in>set ms. match m (path e) True
      then case isDirectoryIgnored loader (resolve E basePath (path e)) of
             Inl msg \<Rightarrow> Some (SystemError msg)
           | Inr ignored \<Rightarrow> None
      else None)"

text \<open>
  A world in which \<open>hfs.isDirectory\<close> rejects, a loader that throws when asked whether
  \<open>c\<close> is ignored, and a loader that ignores nothing and has a configuration for
  every file.
\<close>

definition E3 :: env where
  "E3 = E0\<lparr>hfs_isDirectory := (\<lambda>p. Inl ''EPERM'')\<rparr>"

definition L2 :: configLoader where
  "L2 = \<lparr>isDirectoryIgnored = (\<lambda>p. if p = ''/r/c'' then Inl ''EBADIGNORE'' else Inr False),
          getConfig = (\<lambda>p. Inr (Some (Config ''default'')))\<rparr>"

definition L3 :: configLoader where
  "L3 = \<lparr>isDirectoryIgnored = (\<lambda>p. Inr False), getConfig = (\<lambda>p. Inr (Some (Config ''default'')))\<rparr>"

text \<open>The end of a walk agrees with a first error \<open>fe\<close>: it fails with it, or there is none.\<close>

definition ends_as :: "error + 'st \<Rightarrow> error option \<Rightarrow> bool" where
  "ends_as r fe = (case r of Inl err \<Rightarrow> fe = Some err | Inr s \<Rightarrow> fe = None)"

text \<open>
  A compiler of matchers that, as the constructor of minimatch does
  (\<open>pattern = pattern.trim()\<close>), removes the white space around the pattern it is
  given before it keeps it as \<open>pattern\<close> and matches with it; and the world \<open>E0\<close>
  with this compiler.
\<close>

definition is_space :: "char \<Rightarrow> bool" where
  "is_space c = (c = CHR '' '' \<or> c = CHR 0x09 \<or> c = CHR 0x0A \<or> c = CHR 0x0D)"

definition trim :: "string \<Rightarrow> string" where
  "trim s = rev (dropWhile is_space (rev (dropWhile is_space s)))"

definition Minimatch_trim :: "string \<Rightarrow> matcher" where
  "Minimatch_trim pat = \<lparr>pattern = trim pat, match = match0 (trim pat)\<rparr>"

definition E2 :: env where
  "E2 = E0\<lparr>Minimatch := Minimatch_trim\<rparr>"

section \<open>Properties\<close>

subsection \<open>The filters of \<open>globSearch\<close>\<close>

lemma some_iff: "some p xs = (\<exists>x\<in>set xs. p x)"
  by (induction xs) auto

lemma fst_reduce: "fst (foldl (reduce_step p c) acc ms) = (fst acc \<or> (\<exists>m\<in>set ms. match m p False))"
  by (induction ms arbitrary: acc) (auto simp: reduce_step_def Let_def)

lemma snd_reduce:
  "snd (foldl (reduce_step p c) acc ms) =
     filter (\<lambda>k. \<not> (c \<noteq> None \<and> (\<exists>m\<in>set ms. pattern m = k \<and> match m p False))) (snd acc)"
proof (induction ms arbitrary: acc)
  case Nil
  show ?case by simp
next
  case (Cons m ms)
  have "snd (foldl (reduce_step p c) acc (m # ms)) =
        filter (\<lambda>k. \<not> (c \<noteq> None \<and> (\<exists>m\<in>set ms. pattern m = k \<and> match m p False)))
          (snd (reduce_step p c acc m))"
    using Cons.IH [of "reduce_step p c acc m"] by simp
  also have "\<dots> = filter (\<lambda>k. \<not> (c \<noteq> None \<and> (\<exists>m\<in>set (m # ms). pattern m = k \<and> match m p False))) (snd acc)"
    by (cases "match m p False \<and> c \<noteq> None")
       (auto simp: reduce_step_def Set_delete_def Let_def intro!: filter_cong)
  finally show ?case .
qed

lemma entryFilter_eq:
  "entryFilter E loader basePath ms entry u =
     (if entry_is_dir entry then Inr (False, u)
      else case getConfig loader (resolve E basePath (path entry)) of
             Inl e \<Rightarrow> Inl (SystemError e)
           | Inr c \<Rightarrow> Inr ((\<exists>m\<in>set ms. match m (path entry) False) \<and> c \<noteq> None,
                         filter (\<lambda>k. \<not> (c \<noteq> None \<and> (\<exists>m\<in>set ms. pattern m = k \<and> match m (path entry) False))) u))"
  by (cases u) (auto simp: entryFilter_def Let_def fst_reduce snd_reduce some_iff split: sum.splits)

lemma directoryFilter_eq:
  "directoryFilter E loader basePath ms entry u =
     (if \<not> (\<exists>m\<in>set ms. match m (path entry) True) then Inr (False, u)
      else case isDirectoryIgnored loader (resolve E basePath (path entry)) of
             Inl e \<Rightarrow> Inl (SystemError e)
           | Inr ignored \<Rightarrow> Inr (\<not> ignored, u))"
  by (simp add: directoryFilter_def Let_def some_iff)

subsection \<open>The walker\<close>

lemma walk_list_ef_fails:
  "ef (walkEntry_of pp d n isDir) st = Inl e \<Longrightarrow>
   walk_list df ef pp d (FsEntry n isDir rd # rest) st = ([], Inl e)"
  by simp

lemma walk_list_file:
  "ef (walkEntry_of pp d n False) st = Inr (b, st1) \<Longrightarrow>
   walk_list df ef pp d (FsEntry n False rd # rest) st =
     ((if b then [(walkEntry_of pp d n False, st1)] else []) @ fst (walk_list df ef pp d rest st1),
      snd (walk_list df ef pp d rest st1))"
  by (simp add: Let_def split: prod.splits)

lemma walk_list_df_fails:
  "ef (walkEntry_of pp d n True) st = Inr (b, st1) \<Longrightarrow>
   df (walkEntry_of pp d n True) st1 = Inl e \<Longrightarrow>
   walk_list df ef pp d (FsEntry n True rd # rest) st =
     ((if b then [(walkEntry_of pp d n True, st1)] else []), Inl e)"
  by (simp add: Let_def split: prod.splits)

lemma walk_list_pruned:
  "ef (walkEntry_of pp d n True) st = Inr (b, st1) \<Longrightarrow>
   df (walkEntry_of pp d n True) st1 = Inr (False, st2) \<Longrightarrow>
   walk_list df ef pp d (FsEntry n True rd # rest) st =
     ((if b then [(walkEntry_of pp d n True, st1)] else []) @ fst (walk_list df ef pp d rest st2),
      snd (walk_list df ef pp d rest st2))"
  by (simp add: Let_def split: prod.splits)

lemma walk_list_descend_fails:
  "ef (walkEntry_of pp d n True) st = Inr (b, st1) \<Longrightarrow>
   df (walkEntry_of pp d n True) st1 = Inr (True, st2) \<Longrightarrow>
   snd (walk_dir df ef (path (walkEntry_of pp d n True)) (d + 1) rd st2) = Inl e \<Longrightarrow>
   walk_list df ef pp d (FsEntry n True rd # rest) st =
     ((if b then [(walkEntry_of pp d n True, st1)] else [])
        @ fst (walk_dir df ef (path (walkEntry_of pp d n True)) (d + 1) rd st2), Inl e)"
  by (cases "walk_dir df ef (path (walkEntry_of pp d n True)) (d + 1) rd st2")
     (auto simp: Let_def split: prod.splits sum.splits)

lemma walk_list_descend:
  "ef (walkEntry_of pp d n True) st = Inr (b, st1) \<Longrightarrow>
   df (walkEntry_of pp d n True) st1 = Inr (True, st2) \<Longrightarrow>
   snd (walk_dir df ef (path (walkEntry_of pp d n True)) (d + 1) rd st2) = Inr st3 \<Longrightarrow>
   walk_list df ef pp d (FsEntry n True rd # rest) st =
     ((if b then [(walkEntry_of pp d n True, st1)] else [])
        @ fst (walk_dir df ef (path (walkEntry_of pp d n True)) (d + 1) rd st2)
        @ fst (walk_list df ef pp d rest st3),
      snd (walk_list df ef pp d rest st3))"
  by (cases "walk_dir df ef (path (walkEntry_of pp d n True)) (d + 1) rd st2")
     (auto simp: Let_def split: prod.splits sum.splits)


declare walk_list.simps(2) [simp del]


lemma filter_ok_Inr: "filter_ok P Q R f \<Longrightarrow> P s \<Longrightarrow> f e s = Inr (b, s') \<Longrightarrow> P s' \<and> (b \<longrightarrow> Q e s')"
  unfolding filter_ok_def by (auto split: sum.splits prod.splits)

lemma filter_ok_Inl: "filter_ok P Q R f \<Longrightarrow> P s \<Longrightarrow> f e s = Inl err \<Longrightarrow> R err"
  unfolding filter_ok_def by (auto split: sum.splits prod.splits)

lemma walk_list_walk_dir_ok:
  fixes P :: "'st \<Rightarrow> bool"
  shows "filter_ok P (\<lambda>e s. True) R df \<Longrightarrow> filter_ok P Q R ef \<Longrightarrow> (\<forall>msg. R (SystemError msg)) \<Longrightarrow> P st \<Longrightarrow>
           walk_ok P Q R (walk_list df ef pp d es st)"
    and "filter_ok P (\<lambda>e s. True) R df \<Longrightarrow> filter_ok P Q R ef \<Longrightarrow> (\<forall>msg. R (SystemError msg)) \<Longrightarrow> P st \<Longrightarrow>
           walk_ok P Q R (walk_dir df ef pp d rd st)"
proof (induction df ef pp d es st and df ef pp d rd st rule: walk_list_walk_dir.induct)
  case (1 directoryFilter entryFilter parentPath d st)
  then show ?case by (simp add: walk_ok_def)
next
  case (2 df ef pp d n isDir rd rest st)
  define we where "we = walkEntry_of pp d n isDir"
  note okd = "2.prems"(1) and oke = "2.prems"(2) and okr = "2.prems"(3)
  show ?case
  proof (cases "ef we st")
    case (Inl e)
    then show ?thesis
      using filter_ok_Inl [OF oke "2.prems"(4) Inl]
      by (simp add: we_def walk_list_ef_fails walk_ok_def)
  next
    case (Inr r)
    obtain emit st1 where r: "r = (emit, st1)" by (cases r)
    have eq: "ef we st = Inr (emit, st1)" using Inr r by simp
    have P1: "P st1" and Q1: "emit \<longrightarrow> Q we st1"
      using filter_ok_Inr [OF oke "2.prems"(4) eq] by simp_all
    show ?thesis
    proof (cases isDir)
      case False
      have IH: "walk_ok P Q R (walk_list df ef pp d rest st1)"
        using "2.IH"(4) [OF we_def eq refl refl False okd oke okr P1] .
      show ?thesis using IH P1 Q1 eq False
        by (auto simp: we_def walk_list_file walk_ok_def)
    next
      case True
      show ?thesis
      proof (cases "df we st1")
        case (Inl e)
        then show ?thesis using P1 Q1 eq True filter_ok_Inl [OF okd P1 Inl]
          by (auto simp: we_def walk_list_df_fails walk_ok_def)
      next
        case (Inr q)
        obtain go st2 where q: "q = (go, st2)" by (cases q)
        have eq2: "df we st1 = Inr (go, st2)" using Inr q by simp
        have P2: "P st2" using filter_ok_Inr [OF okd P1 eq2] by simp
        show ?thesis
        proof (cases go)
          case False
          have IH: "walk_ok P Q R (walk_list df ef pp d rest st2)"
            using "2.IH"(1) [OF we_def eq refl refl True eq2 refl _ okd oke okr P2] False by simp
          show ?thesis using IH P1 Q1 eq eq2 True False
            by (auto simp: we_def walk_list_pruned walk_ok_def)
        next
          case go: True
          have IHd: "walk_ok P Q R (walk_dir df ef (path we) (d + 1) rd st2)"
            using "2.IH"(2) [OF we_def eq refl refl True eq2 refl _ okd oke okr P2] go by simp
          show ?thesis
          proof (cases "walk_dir df ef (path we) (d + 1) rd st2")
            case (Pair ws r3)
            show ?thesis
            proof (cases r3)
              case (Inl e)
              then show ?thesis using IHd P1 Q1 eq eq2 True go Pair
                by (auto simp: we_def walk_list_descend_fails walk_ok_def)
            next
              case (Inr st3)
              have P3: "P st3" using IHd Pair Inr by (simp add: walk_ok_def)
              have IH3: "walk_ok P Q R (walk_list df ef pp d rest st3)"
                using "2.IH"(3) [OF we_def eq refl refl True eq2 refl _ Pair [symmetric] Inr okd oke okr P3] go by simp
              show ?thesis using IHd IH3 P1 Q1 eq eq2 True go Pair Inr
                by (auto simp: we_def walk_list_descend walk_ok_def)
            qed
          qed
        qed
      qed
    qed
  qed
next
  case (3 directoryFilter entryFilter parentPath d e st)
  then show ?case by (simp add: walk_ok_def)
next
  case (4 directoryFilter entryFilter parentPath d es st)
  then show ?case by simp
qed

lemma walk_ok:
  "filter_ok P (\<lambda>e s. True) R df \<Longrightarrow> filter_ok P Q R ef \<Longrightarrow> (\<forall>msg. R (SystemError msg)) \<Longrightarrow> P st \<Longrightarrow>
     walk_ok P Q R (walk E dirPath df ef st)"
  unfolding walk_def by (rule walk_list_walk_dir_ok(2))


lemma filter_answersD: "filter_answers A f \<Longrightarrow> f e s = Inr (b, s') \<Longrightarrow> b = A e"
  unfolding filter_answers_def by blast

lemma walk_list_walk_dir_visited:
  shows "filter_answers D df \<Longrightarrow> filter_answers A ef \<Longrightarrow>
           \<forall>s'. snd (walk_list df ef pp d es st) = Inr s' \<longrightarrow>
             map fst (fst (walk_list df ef pp d es st)) = filter A (visited_list D pp d es)"
    and "filter_answers D df \<Longrightarrow> filter_answers A ef \<Longrightarrow>
           \<forall>s'. snd (walk_dir df ef pp d rd st) = Inr s' \<longrightarrow>
             map fst (fst (walk_dir df ef pp d rd st)) = filter A (visited_dir D pp d rd)"
proof (induction df ef pp d es st and df ef pp d rd st rule: walk_list_walk_dir.induct)
  case (1 directoryFilter entryFilter parentPath d st)
  then show ?case by simp
next
  case (2 df ef pp d n isDir rd rest st)
  define we where "we = walkEntry_of pp d n isDir"
  note okd = "2.prems"(1) and oke = "2.prems"(2)
  show ?case
  proof (intro allI impI)
  fix s' assume fin: "snd (walk_list df ef pp d (FsEntry n isDir rd # rest) st) = Inr s'"
  show "map fst (fst (walk_list df ef pp d (FsEntry n isDir rd # rest) st)) =
          filter A (visited_list D pp d (FsEntry n isDir rd # rest))"
  proof (cases "ef we st")
    case (Inl e)
    then show ?thesis using fin by (simp add: we_def walk_list_ef_fails)
  next
    case (Inr r)
    obtain emit st1 where r: "r = (emit, st1)" by (cases r)
    have eq: "ef we st = Inr (emit, st1)" using Inr r by simp
    have em: "emit = A we" using filter_answersD [OF oke eq] .
    show ?thesis
    proof (cases isDir)
      case False
      from fin eq False have fin': "snd (walk_list df ef pp d rest st1) = Inr s'"
        by (simp add: we_def walk_list_file)
      have "map fst (fst (walk_list df ef pp d rest st1)) = filter A (visited_list D pp d rest)"
        using "2.IH"(4) [OF we_def eq refl refl False okd oke] fin' by blast
      then show ?thesis using eq False em
        by (simp add: we_def walk_list_file)
    next
      case True
      show ?thesis
      proof (cases "df we st1")
        case (Inl e)
        then show ?thesis using fin eq True by (simp add: we_def walk_list_df_fails)
      next
        case (Inr q)
        obtain go st2 where q: "q = (go, st2)" by (cases q)
        have eq2: "df we st1 = Inr (go, st2)" using Inr q by simp
        have go: "go = D we" using filter_answersD [OF okd eq2] .
        show ?thesis
        proof (cases go)
          case False
          from fin eq eq2 True False have fin': "snd (walk_list df ef pp d rest st2) = Inr s'"
            by (simp add: we_def walk_list_pruned)
          have "map fst (fst (walk_list df ef pp d rest st2)) = filter A (visited_list D pp d rest)"
            using "2.IH"(1) [OF we_def eq refl refl True eq2 refl _ okd oke] fin' False by blast
          then show ?thesis using eq eq2 True False em go
            by (simp add: we_def walk_list_pruned)
        next
          case goT: True
          show ?thesis
          proof (cases "walk_dir df ef (path we) (d + 1) rd st2")
            case (Pair ws r3)
            show ?thesis
            proof (cases r3)
              case (Inl e)
              then show ?thesis using fin eq eq2 True goT Pair
                by (simp add: we_def walk_list_descend_fails)
            next
              case (Inr st3)
              have sd: "snd (walk_dir df ef (path we) (d + 1) rd st2) = Inr st3"
                using Pair Inr by simp
              from fin eq eq2 True goT sd have fin': "snd (walk_list df ef pp d rest st3) = Inr s'"
                by (simp add: we_def walk_list_descend)
              have d1: "map fst (fst (walk_dir df ef (path we) (d + 1) rd st2)) =
                          filter A (visited_dir D (path we) (d + 1) rd)"
                using "2.IH"(2) [OF we_def eq refl refl True eq2 refl _ okd oke] sd goT by blast
              have d2: "map fst (fst (walk_list df ef pp d rest st3)) = filter A (visited_list D pp d rest)"
                using "2.IH"(3) [OF we_def eq refl refl True eq2 refl _ Pair [symmetric] Inr okd oke] fin' goT
                by blast
              show ?thesis using eq eq2 True goT sd em go d1 d2
                by (simp add: we_def walk_list_descend)
            qed
          qed
        qed
      qed
    qed
  qed
  qed
next
  case (3 directoryFilter entryFilter parentPath d e st)
  then show ?case by simp
next
  case (4 directoryFilter entryFilter parentPath d es st)
  then show ?case by simp
qed

subsection \<open>The walk of one group\<close>

lemma entryFilter_ok:
  "filter_ok (\<lambda>s. set s \<subseteq> S)
     (\<lambda>e s. \<not> entry_is_dir e \<and> (\<exists>m\<in>set ms. match m (path e) False) \<and>
            (\<exists>c. getConfig loader (resolve E basePath (path e)) = Inr (Some c)))
     (\<lambda>err. \<exists>msg. err = SystemError msg)
     (entryFilter E loader basePath ms)"
  unfolding filter_ok_def entryFilter_eq by (auto split: sum.splits)

lemma directoryFilter_ok:
  "filter_ok (\<lambda>s. set s \<subseteq> S) (\<lambda>e s. True) (\<lambda>err. \<exists>msg. err = SystemError msg)
     (directoryFilter E loader basePath ms)"
  unfolding filter_ok_def directoryFilter_eq by (auto split: sum.splits)

lemma globSearch_walk_ok:
  "walk_ok (\<lambda>s. set s \<subseteq> set (new_Set (Map_keys (relativeToPatterns E basePath ps))))
     (\<lambda>e s. \<not> entry_is_dir e \<and> (\<exists>m\<in>set (compile_matchers E basePath ps). match m (path e) False) \<and>
            (\<exists>c. getConfig loader (resolve E basePath (path e)) = Inr (Some c)))
     (\<lambda>err. \<exists>msg. err = SystemError msg)
     (globSearch_walk E loader basePath ps)"
  unfolding globSearch_walk_def
  by (rule walk_ok [OF directoryFilter_ok entryFilter_ok]) simp_all

lemma globSearch_directory:
  assumes "ps \<noteq> []" and "hfs_isDirectory E basePath = Inr True"
  shows "globSearch E loader basePath ps rs eou =
     (case snd (globSearch_walk E loader basePath ps) of
        Inl e \<Rightarrow> Inl e
      | Inr u \<Rightarrow>
          if eou \<and> u \<noteq> []
          then Inl (UnmatchedSearchPatternsError basePath
                      (map (Map_get (relativeToPatterns E basePath ps)) u) ps rs)
          else Inr (map (\<lambda>y. resolve E basePath (path (fst y))) (fst (globSearch_walk E loader basePath ps))))"
  using assms by (simp add: globSearch_def for_await_def Let_def split: sum.splits)

lemma globSearch_not_directory:
  assumes "ps \<noteq> []" and "hfs_isDirectory E basePath = Inr False"
  shows "globSearch E loader basePath ps rs eou =
     (if eou \<and> new_Set (Map_keys (relativeToPatterns E basePath ps)) \<noteq> []
      then Inl (UnmatchedSearchPatternsError basePath
                  (map (Map_get (relativeToPatterns E basePath ps))
                     (new_Set (Map_keys (relativeToPatterns E basePath ps)))) ps rs)
      else Inr [])"
  using assms by (simp add: globSearch_def Let_def)

lemma globSearch_Inr_files:
  assumes "globSearch E loader basePath ps rs eou = Inr files" and "f \<in> set files"
  shows "hfs_isDirectory E basePath = Inr True \<and>
         (\<exists>y\<in>set (fst (globSearch_walk E loader basePath ps)). f = resolve E basePath (path (fst y)))"
  using assms
  by (auto simp: globSearch_def for_await_def Let_def split: if_splits sum.splits prod.splits)

lemma entryFilter_answers:
  "filter_answers (entry_accepted E loader basePath ms) (entryFilter E loader basePath ms)"
  unfolding filter_answers_def entryFilter_eq entry_accepted_def
  by (auto split: if_splits sum.splits)

lemma directoryFilter_answers:
  "filter_answers (directory_entered E loader basePath ms) (directoryFilter E loader basePath ms)"
  unfolding filter_answers_def directoryFilter_eq directory_entered_def
  by (auto split: if_splits sum.splits)

lemma globSearch_walk_visited:
  assumes "snd (globSearch_walk E loader basePath ps) = Inr u"
  shows "map fst (fst (globSearch_walk E loader basePath ps)) =
           filter (entry_accepted E loader basePath (compile_matchers E basePath ps))
             (visited_dir (directory_entered E loader basePath (compile_matchers E basePath ps)) [] 1
                (hfs_list E basePath))"
  using walk_list_walk_dir_visited(2) [OF directoryFilter_answers entryFilter_answers,
      of E loader basePath "compile_matchers E basePath ps" E loader basePath
         "compile_matchers E basePath ps" "[]" 1 "hfs_list E basePath"
         "new_Set (Map_keys (relativeToPatterns E basePath ps))"]
    assms
  unfolding globSearch_walk_def walk_def by blast

lemma globSearch_Inr_eq:
  assumes "globSearch E loader basePath ps rs eou = Inr files"
  shows "files =
     (if ps \<noteq> [] \<and> hfs_isDirectory E basePath = Inr True
      then map (\<lambda>e. resolve E basePath (path e))
             (filter (entry_accepted E loader basePath (compile_matchers E basePath ps))
                (visited_dir (directory_entered E loader basePath (compile_matchers E basePath ps)) [] 1
                   (hfs_list E basePath)))
      else [])"
proof (cases "ps \<noteq> [] \<and> hfs_isDirectory E basePath = Inr True")
  case True
  then have ne: "ps \<noteq> []" and d: "hfs_isDirectory E basePath = Inr True" by simp_all
  from assms obtain u where u: "snd (globSearch_walk E loader basePath ps) = Inr u"
    and f: "files = map (\<lambda>y. resolve E basePath (path (fst y))) (fst (globSearch_walk E loader basePath ps))"
    unfolding globSearch_directory [OF ne d]
    by (cases "snd (globSearch_walk E loader basePath ps)") (auto split: if_splits)
  have "files = map (\<lambda>e. resolve E basePath (path e)) (map fst (fst (globSearch_walk E loader basePath ps)))"
    unfolding f by (simp add: comp_def)
  then show ?thesis using True globSearch_walk_visited [OF u] by simp
next
  case False
  show ?thesis
  proof (cases "ps = []")
    case True
    then show ?thesis using assms by (simp add: globSearch_def)
  next
    case ne: False
    with False have nd: "hfs_isDirectory E basePath \<noteq> Inr True" by simp
    show ?thesis
    proof (cases "hfs_isDirectory E basePath")
      case (Inl e)
      then show ?thesis using assms ne by (simp add: globSearch_def)
    next
      case (Inr b)
      with nd have nd': "hfs_isDirectory E basePath = Inr False" by simp
      show ?thesis using assms False unfolding globSearch_not_directory [OF ne nd']
        by (auto split: if_splits)
    qed
  qed
qed

text \<open>
  C1. During a group walk an entry is included in the results, as its path resolved
  against the base path, if and only if it is not a directory, some compiled matcher
  matches its relative path, and the loader has a configuration for its absolute
  path. First conjunct: that is the answer of the entry filter whenever it answers.
  Second conjunct: the yields of a walk that runs to its end are exactly the entries
  visited that satisfy the three conditions, in order. Third conjunct: the list that
  \<open>globSearch\<close> returns is exactly their resolved paths (and is empty when the group
  has no patterns or the base path is not a directory); so an entry without a
  configuration is never returned, and every visited entry with the three conditions
  is.
\<close>

theorem entryFilter_includes_iff:
  "(entryFilter E loader basePath ms entry u = Inr (emit, u') \<longrightarrow>
      emit = (\<not> entry_is_dir entry \<and> (\<exists>m\<in>set ms. match m (path entry) False) \<and>
              (\<exists>c. getConfig loader (resolve E basePath (path entry)) = Inr (Some c)))) \<and>
   (snd (globSearch_walk E loader basePath ps) = Inr uf \<longrightarrow>
      map fst (fst (globSearch_walk E loader basePath ps)) =
        filter (\<lambda>e. \<not> entry_is_dir e \<and>
                   (\<exists>m\<in>set (compile_matchers E basePath ps). match m (path e) False) \<and>
                   (\<exists>c. getConfig loader (resolve E basePath (path e)) = Inr (Some c)))
          (visited_dir (directory_entered E loader basePath (compile_matchers E basePath ps)) [] 1
             (hfs_list E basePath))) \<and>
   (globSearch E loader basePath ps rs eou = Inr files \<longrightarrow>
      files =
        (if ps \<noteq> [] \<and> hfs_isDirectory E basePath = Inr True
         then map (\<lambda>e. resolve E basePath (path e))
                (filter (\<lambda>e. \<not> entry_is_dir e \<and>
                           (\<exists>m\<in>set (compile_matchers E basePath ps). match m (path e) False) \<and>
                           (\<exists>c. getConfig loader (resolve E basePath (path e)) = Inr (Some c)))
                   (visited_dir (directory_entered E loader basePath (compile_matchers E basePath ps)) [] 1
                      (hfs_list E basePath)))
         else []))"
proof (intro conjI impI)
  assume "entryFilter E loader basePath ms entry u = Inr (emit, u')"
  then show "emit = (\<not> entry_is_dir entry \<and> (\<exists>m\<in>set ms. match m (path entry) False) \<and>
              (\<exists>c. getConfig loader (resolve E basePath (path entry)) = Inr (Some c)))"
    unfolding entryFilter_eq by (auto split: if_splits sum.splits)
next
  assume "snd (globSearch_walk E loader basePath ps) = Inr uf"
  from globSearch_walk_visited [OF this]
  show "map fst (fst (globSearch_walk E loader basePath ps)) =
        filter (\<lambda>e. \<not> entry_is_dir e \<and>
                   (\<exists>m\<in>set (compile_matchers E basePath ps). match m (path e) False) \<and>
                   (\<exists>c. getConfig loader (resolve E basePath (path e)) = Inr (Some c)))
          (visited_dir (directory_entered E loader basePath (compile_matchers E basePath ps)) [] 1
             (hfs_list E basePath))"
    unfolding entry_accepted_def .
next
  assume "globSearch E loader basePath ps rs eou = Inr files"
  from globSearch_Inr_eq [OF this]
  show "files =
        (if ps \<noteq> [] \<and> hfs_isDirectory E basePath = Inr True
         then map (\<lambda>e. resolve E basePath (path e))
                (filter (\<lambda>e. \<not> entry_is_dir e \<and>
                           (\<exists>m\<in>set (compile_matchers E basePath ps). match m (path e) False) \<and>
                           (\<exists>c. getConfig loader (resolve E basePath (path e)) = Inr (Some c)))
                   (visited_dir (directory_entered E loader basePath (compile_matchers E basePath ps)) [] 1
                      (hfs_list E basePath)))
         else [])"
    unfolding entry_accepted_def .
qed

theorem entryFilter_includes_iff_witness:
  "entryFilter E0 L0 ''/r'' (compile_matchers E0 ''/r'' [''/r/**/*.js''])
      \<lparr>path = ''a/x.js'', entry_is_dir = False, depth = 2\<rparr> [''**/*.js''] = Inr (True, []) \<and>
   (\<exists>m\<in>set (compile_matchers E0 ''/r'' [''/r/**/*.js'']). match m ''a/x.js'' False) \<and>
   (\<exists>c. getConfig L0 (resolve E0 ''/r'' ''a/x.js'') = Inr (Some c)) \<and>
   map path (visited_dir (directory_entered E0 L0 ''/r'' (compile_matchers E0 ''/r'' [''/r/**/*.js''])) [] 1
      (hfs_list E0 ''/r'')) =
     [''a'', ''a/x.js'', ''a/y.txt'', ''b'', ''c'', ''c/d'', ''c/d/w.js'', ''c/d/.hidden.js'', ''sock''] \<and>
   snd (globSearch_walk E0 L0 ''/r'' [''/r/**/*.js'']) = Inr [] \<and>
   map fst (fst (globSearch_walk E0 L0 ''/r'' [''/r/**/*.js''])) =
     filter (\<lambda>e. \<not> entry_is_dir e \<and>
                (\<exists>m\<in>set (compile_matchers E0 ''/r'' [''/r/**/*.js'']). match m (path e) False) \<and>
                (\<exists>c. getConfig L0 (resolve E0 ''/r'' (path e)) = Inr (Some c)))
       (visited_dir (directory_entered E0 L0 ''/r'' (compile_matchers E0 ''/r'' [''/r/**/*.js''])) [] 1
          (hfs_list E0 ''/r'')) \<and>
   globSearch E0 L0 ''/r'' [''/r/**/*.js''] [''**/*.js''] False =
      Inr [''/r/a/x.js'', ''/r/c/d/w.js'', ''/r/c/d/.hidden.js''] \<and>
   [''/r/a/x.js'', ''/r/c/d/w.js'', ''/r/c/d/.hidden.js''] =
     map (\<lambda>e. resolve E0 ''/r'' (path e))
       (filter (\<lambda>e. \<not> entry_is_dir e \<and>
                  (\<exists>m\<in>set (compile_matchers E0 ''/r'' [''/r/**/*.js'']). match m (path e) False) \<and>
                  (\<exists>c. getConfig L0 (resolve E0 ''/r'' (path e)) = Inr (Some c)))
          (visited_dir (directory_entered E0 L0 ''/r'' (compile_matchers E0 ''/r'' [''/r/**/*.js''])) [] 1
             (hfs_list E0 ''/r'')))"
proof -
  let ?ps = "[''/r/**/*.js'']"
  let ?ms = "compile_matchers E0 ''/r'' ?ps"
  let ?x = "\<lparr>path = ''a/x.js'', entry_is_dir = False, depth = 2\<rparr>"
  have h1: "entryFilter E0 L0 ''/r'' ?ms ?x [''**/*.js''] = Inr (True, [])"
    by code_simp
  have h2: "globSearch E0 L0 ''/r'' ?ps [''**/*.js''] False =
      Inr [''/r/a/x.js'', ''/r/c/d/w.js'', ''/r/c/d/.hidden.js'']"
    by code_simp
  have h3: "snd (globSearch_walk E0 L0 ''/r'' ?ps) = Inr []"
    by code_simp
  have h4: "map path (visited_dir (directory_entered E0 L0 ''/r'' ?ms) [] 1 (hfs_list E0 ''/r'')) =
     [''a'', ''a/x.js'', ''a/y.txt'', ''b'', ''c'', ''c/d'', ''c/d/w.js'', ''c/d/.hidden.js'', ''sock'']"
    by code_simp
  have h5: "?ps \<noteq> [] \<and> hfs_isDirectory E0 ''/r'' = Inr True"
    by code_simp
  note t = entryFilter_includes_iff [where E = E0 and loader = L0 and basePath = "''/r''"
      and ms = ?ms and entry = ?x and u = "[''**/*.js'']" and emit = True and u' = "[]"
      and ps = ?ps and rs = "[''**/*.js'']" and eou = False and uf = "[]"
      and files = "[''/r/a/x.js'', ''/r/c/d/w.js'', ''/r/c/d/.hidden.js'']"]
  have c1: "(\<exists>m\<in>set ?ms. match m ''a/x.js'' False) \<and>
            (\<exists>c. getConfig L0 (resolve E0 ''/r'' ''a/x.js'') = Inr (Some c))"
    using t h1 by simp
  have c2: "map fst (fst (globSearch_walk E0 L0 ''/r'' ?ps)) =
     filter (\<lambda>e. \<not> entry_is_dir e \<and> (\<exists>m\<in>set ?ms. match m (path e) False) \<and>
                (\<exists>c. getConfig L0 (resolve E0 ''/r'' (path e)) = Inr (Some c)))
       (visited_dir (directory_entered E0 L0 ''/r'' ?ms) [] 1 (hfs_list E0 ''/r''))"
    using t h3 by blast
  have c3: "[''/r/a/x.js'', ''/r/c/d/w.js'', ''/r/c/d/.hidden.js''] =
     map (\<lambda>e. resolve E0 ''/r'' (path e))
       (filter (\<lambda>e. \<not> entry_is_dir e \<and> (\<exists>m\<in>set ?ms. match m (path e) False) \<and>
                  (\<exists>c. getConfig L0 (resolve E0 ''/r'' (path e)) = Inr (Some c)))
          (visited_dir (directory_entered E0 L0 ''/r'' ?ms) [] 1 (hfs_list E0 ''/r'')))"
  proof -
    have "[''/r/a/x.js'', ''/r/c/d/w.js'', ''/r/c/d/.hidden.js''] =
       (if ?ps \<noteq> [] \<and> hfs_isDirectory E0 ''/r'' = Inr True
        then map (\<lambda>e. resolve E0 ''/r'' (path e))
          (filter (\<lambda>e. \<not> entry_is_dir e \<and> (\<exists>m\<in>set ?ms. match m (path e) False) \<and>
                  (\<exists>c. getConfig L0 (resolve E0 ''/r'' (path e)) = Inr (Some c)))
          (visited_dir (directory_entered E0 L0 ''/r'' ?ms) [] 1 (hfs_list E0 ''/r'')))
        else [])"
      using t h2 by blast
    then show ?thesis unfolding if_P [OF h5] .
  qed
  from h1 h2 h3 h4 c1 c2 c3 show ?thesis by blast
qed



lemma filter_shrinksD: "filter_shrinks f \<Longrightarrow> f e s = Inr (b, s') \<Longrightarrow> set s' \<subseteq> set s"
  unfolding filter_shrinks_def by blast

lemma walk_list_walk_dir_shrinks:
  fixes st :: "'a list"
  shows "filter_shrinks df \<Longrightarrow> filter_shrinks ef \<Longrightarrow> walk_shrinks st (walk_list df ef pp d es st)"
    and "filter_shrinks df \<Longrightarrow> filter_shrinks ef \<Longrightarrow> walk_shrinks st (walk_dir df ef pp d rd st)"
proof (induction df ef pp d es st and df ef pp d rd st rule: walk_list_walk_dir.induct)
  case (1 directoryFilter entryFilter parentPath d st)
  then show ?case by (simp add: walk_shrinks_def)
next
  case (2 df ef pp d n isDir rd rest st)
  define we where "we = walkEntry_of pp d n isDir"
  note okd = "2.prems"(1) and oke = "2.prems"(2)
  show ?case
  proof (cases "ef we st")
    case (Inl e)
    then show ?thesis
      by (simp add: we_def walk_list_ef_fails walk_shrinks_def)
  next
    case (Inr r)
    obtain emit st1 where r: "r = (emit, st1)" by (cases r)
    have eq: "ef we st = Inr (emit, st1)" using Inr r by simp
    have P1: "set st1 \<subseteq> set st"
      using filter_shrinksD [OF oke eq] .
    show ?thesis
    proof (cases isDir)
      case False
      have IH: "walk_shrinks st1 (walk_list df ef pp d rest st1)"
        using "2.IH"(4) [OF we_def eq refl refl False okd oke] .
      show ?thesis using IH P1 eq False
        unfolding walk_shrinks_def
        by (auto simp: we_def walk_list_file sorted_wrt_append) (fastforce+)?
    next
      case True
      show ?thesis
      proof (cases "df we st1")
        case (Inl e)
        then show ?thesis using P1 eq True
          by (auto simp: we_def walk_list_df_fails walk_shrinks_def) (fastforce+)?
      next
        case (Inr q)
        obtain go st2 where q: "q = (go, st2)" by (cases q)
        have eq2: "df we st1 = Inr (go, st2)" using Inr q by simp
        have P2: "set st2 \<subseteq> set st1" using filter_shrinksD [OF okd eq2] .
        show ?thesis
        proof (cases go)
          case False
          have IH: "walk_shrinks st2 (walk_list df ef pp d rest st2)"
            using "2.IH"(1) [OF we_def eq refl refl True eq2 refl _ okd oke] False by simp
          show ?thesis using IH P1 P2 eq eq2 True False
            unfolding walk_shrinks_def
            by (auto simp: we_def walk_list_pruned sorted_wrt_append) (fastforce+)?
        next
          case go: True
          have IHd: "walk_shrinks st2 (walk_dir df ef (path we) (d + 1) rd st2)"
            using "2.IH"(2) [OF we_def eq refl refl True eq2 refl _ okd oke] go by simp
          show ?thesis
          proof (cases "walk_dir df ef (path we) (d + 1) rd st2")
            case (Pair ws r3)
            show ?thesis
            proof (cases r3)
              case (Inl e)
              then show ?thesis using IHd P1 P2 eq eq2 True go Pair
                unfolding walk_shrinks_def
                by (auto simp: we_def walk_list_descend_fails sorted_wrt_append) (fastforce+)?
            next
              case (Inr st3)
              have IH3: "walk_shrinks st3 (walk_list df ef pp d rest st3)"
                using "2.IH"(3) [OF we_def eq refl refl True eq2 refl _ Pair [symmetric] Inr okd oke] go by simp
              show ?thesis using IHd IH3 P1 P2 eq eq2 True go Pair Inr
                unfolding walk_shrinks_def
                by (auto simp: we_def walk_list_descend sorted_wrt_append) (fastforce+)?
            qed
          qed
        qed
      qed
    qed
  qed
next
  case (3 directoryFilter entryFilter parentPath d e st)
  then show ?case by (simp add: walk_shrinks_def)
next
  case (4 directoryFilter entryFilter parentPath d es st)
  then show ?case by simp
qed

lemma walk_shrinks:
  "filter_shrinks df \<Longrightarrow> filter_shrinks ef \<Longrightarrow> walk_shrinks st (walk E dirPath df ef st)"
  unfolding walk_def by (rule walk_list_walk_dir_shrinks(2))

lemma entryFilter_shrinks: "filter_shrinks (entryFilter E loader basePath ms)"
  unfolding filter_shrinks_def entryFilter_eq by (auto split: if_splits sum.splits)

lemma directoryFilter_shrinks: "filter_shrinks (directoryFilter E loader basePath ms)"
  unfolding filter_shrinks_def directoryFilter_eq by (auto split: if_splits sum.splits)

text \<open>
  Within one group walk the set of unmatched patterns only shrinks. A call of the
  entry filter removes exactly the \<open>pattern\<close> properties of the matchers that match
  the entry, and only for a non-directory entry that has a configuration (first
  conjunct); a call of the directory filter leaves the set as it is (second conjunct).
  On the empty set the entry filter decides by \<open>some\<close>, which stops at the first
  matcher that matches, and the set stays empty (third conjunct). Along a whole walk
  each yield carries a subset of the set at every earlier yield, and the final set is
  a subset of them all (fourth conjunct).
\<close>

lemma unmatched_set_shrinks:
  "(entryFilter E loader basePath ms entry u = Inr (emit, u') \<longrightarrow>
      u' = filter (\<lambda>k. \<not> (\<not> entry_is_dir entry \<and>
                           (\<exists>c. getConfig loader (resolve E basePath (path entry)) = Inr (Some c)) \<and>
                           (\<exists>m\<in>set ms. pattern m = k \<and> match m (path entry) False))) u) \<and>
   (directoryFilter E loader basePath ms entry u = Inr (descend, u'') \<longrightarrow> u'' = u) \<and>
   (entryFilter E loader basePath ms entry [] = Inr (emit0, u0) \<longrightarrow>
      u0 = [] \<and>
      emit0 = (\<not> entry_is_dir entry \<and> some (\<lambda>m. match m (path entry) False) ms \<and>
               (\<exists>c. getConfig loader (resolve E basePath (path entry)) = Inr (Some c)))) \<and>
   walk_shrinks (new_Set (Map_keys (relativeToPatterns E basePath ps)))
     (globSearch_walk E loader basePath ps)"
proof (intro conjI impI)
  assume "entryFilter E loader basePath ms entry u = Inr (emit, u')"
  then show "u' = filter (\<lambda>k. \<not> (\<not> entry_is_dir entry \<and>
                           (\<exists>c. getConfig loader (resolve E basePath (path entry)) = Inr (Some c)) \<and>
                           (\<exists>m\<in>set ms. pattern m = k \<and> match m (path entry) False))) u"
    unfolding entryFilter_eq by (auto split: if_splits sum.splits intro!: filter_cong)
next
  assume "directoryFilter E loader basePath ms entry u = Inr (descend, u'')"
  then show "u'' = u"
    unfolding directoryFilter_eq by (auto split: if_splits sum.splits)
next
  assume a: "entryFilter E loader basePath ms entry [] = Inr (emit0, u0)"
  then show "u0 = []"
    unfolding entryFilter_eq by (auto split: if_splits sum.splits)
  from a show "emit0 = (\<not> entry_is_dir entry \<and> some (\<lambda>m. match m (path entry) False) ms \<and>
               (\<exists>c. getConfig loader (resolve E basePath (path entry)) = Inr (Some c)))"
    unfolding entryFilter_eq some_iff by (auto split: if_splits sum.splits)
next
  show "walk_shrinks (new_Set (Map_keys (relativeToPatterns E basePath ps)))
     (globSearch_walk E loader basePath ps)"
    unfolding globSearch_walk_def
    by (rule walk_shrinks [OF directoryFilter_shrinks entryFilter_shrinks])
qed

text \<open>
  C5. A pattern is removed from the set of unmatched patterns exactly when a file
  that it matches and that has a configuration is met: this fails. The set holds the
  relative patterns as \<open>globSearch\<close> computed them (\<open>patternToUse\<close>), but the entry
  filter deletes \<open>matcher.pattern\<close>, the pattern as the matcher kept it. With a
  compiler of matchers that trims its pattern, as minimatch does, the two differ for
  the pattern \<open>**/*.js\<close> followed by a space: its matcher matches \<open>a/x.js\<close>, which has a
  configuration, and the entry filter accepts the file but leaves the pattern in the
  set; the walk yields four files that the matcher matches and ends with the pattern
  still unmatched. So with \<open>errorOnUnmatchedPattern\<close> the search of the group fails,
  the second walk finds that the pattern has a match, and \<open>findFiles\<close> reports that
  all files are ignored, where without the flag it returns the four files; the same
  pattern without the space returns them with the flag too.
\<close>

theorem unmatched_pattern_key_not_removed:
  "searches (stats_forEach E2 True ''/r'' [''**/*.js '']) = [(''/r'', [''/r/**/*.js ''], [''**/*.js ''])] \<and>
   new_Set (Map_keys (relativeToPatterns E2 ''/r'' [''/r/**/*.js ''])) = [''**/*.js ''] \<and>
   map pattern (compile_matchers E2 ''/r'' [''/r/**/*.js '']) = [''**/*.js''] \<and>
   map (\<lambda>m. match m ''a/x.js'' False) (compile_matchers E2 ''/r'' [''/r/**/*.js '']) = [True] \<and>
   getConfig L3 (resolve E2 ''/r'' ''a/x.js'') = Inr (Some (Config ''default'')) \<and>
   entryFilter E2 L3 ''/r'' (compile_matchers E2 ''/r'' [''/r/**/*.js ''])
      \<lparr>path = ''a/x.js'', entry_is_dir = False, depth = 2\<rparr> [''**/*.js '']
     = Inr (True, [''**/*.js '']) \<and>
   map (\<lambda>y. path (fst y)) (fst (globSearch_walk E2 L3 ''/r'' [''/r/**/*.js ''])) =
     [''a/x.js'', ''b/z.js'', ''c/d/w.js'', ''c/d/.hidden.js''] \<and>
   snd (globSearch_walk E2 L3 ''/r'' [''/r/**/*.js '']) = Inr [''**/*.js ''] \<and>
   globSearch E2 L3 ''/r'' [''/r/**/*.js ''] [''**/*.js ''] True =
     Inl (UnmatchedSearchPatternsError ''/r'' [Some ''/r/**/*.js ''] [''/r/**/*.js ''] [''**/*.js '']) \<and>
   globMatch E2 ''/r'' (Some ''/r/**/*.js '') = Inr True \<and>
   findFiles E2 L3 [''**/*.js ''] True ''/r'' True = Inl (AllFilesIgnoredError (Some ''**/*.js '')) \<and>
   findFiles E2 L3 [''**/*.js ''] True ''/r'' False =
     Inr [Some ''/r/a/x.js'', Some ''/r/b/z.js'', Some ''/r/c/d/w.js'', Some ''/r/c/d/.hidden.js''] \<and>
   findFiles E2 L3 [''**/*.js''] True ''/r'' True =
     Inr [Some ''/r/a/x.js'', Some ''/r/b/z.js'', Some ''/r/c/d/w.js'', Some ''/r/c/d/.hidden.js'']"
proof -
  have h1: "searches (stats_forEach E2 True ''/r'' [''**/*.js '']) = [(''/r'', [''/r/**/*.js ''], [''**/*.js ''])]"
    by code_simp
  have h2: "new_Set (Map_keys (relativeToPatterns E2 ''/r'' [''/r/**/*.js ''])) = [''**/*.js '']"
    by code_simp
  have h3: "map pattern (compile_matchers E2 ''/r'' [''/r/**/*.js '']) = [''**/*.js'']"
    by code_simp
  have h4: "map (\<lambda>m. match m ''a/x.js'' False) (compile_matchers E2 ''/r'' [''/r/**/*.js '']) = [True]"
    by code_simp
  have h5: "getConfig L3 (resolve E2 ''/r'' ''a/x.js'') = Inr (Some (Config ''default''))"
    by code_simp
  have h6: "entryFilter E2 L3 ''/r'' (compile_matchers E2 ''/r'' [''/r/**/*.js ''])
      \<lparr>path = ''a/x.js'', entry_is_dir = False, depth = 2\<rparr> [''**/*.js '']
     = Inr (True, [''**/*.js ''])"
    by code_simp
  have h7: "map (\<lambda>y. path (fst y)) (fst (globSearch_walk E2 L3 ''/r'' [''/r/**/*.js ''])) =
     [''a/x.js'', ''b/z.js'', ''c/d/w.js'', ''c/d/.hidden.js'']"
    by code_simp
  have h8: "snd (globSearch_walk E2 L3 ''/r'' [''/r/**/*.js '']) = Inr [''**/*.js '']"
    by code_simp
  have h9: "globSearch E2 L3 ''/r'' [''/r/**/*.js ''] [''**/*.js ''] True =
     Inl (UnmatchedSearchPatternsError ''/r'' [Some ''/r/**/*.js ''] [''/r/**/*.js ''] [''**/*.js ''])"
    by code_simp
  have h10: "globMatch E2 ''/r'' (Some ''/r/**/*.js '') = Inr True"
    by code_simp
  have h11: "findFiles E2 L3 [''**/*.js ''] True ''/r'' True = Inl (AllFilesIgnoredError (Some ''**/*.js ''))"
    by code_simp
  have h12: "findFiles E2 L3 [''**/*.js ''] True ''/r'' False =
     Inr [Some ''/r/a/x.js'', Some ''/r/b/z.js'', Some ''/r/c/d/w.js'', Some ''/r/c/d/.hidden.js'']"
    by code_simp
  have h13: "findFiles E2 L3 [''**/*.js''] True ''/r'' True =
     Inr [Some ''/r/a/x.js'', Some ''/r/b/z.js'', Some ''/r/c/d/w.js'', Some ''/r/c/d/.hidden.js'']"
    by code_simp
  from h1 h2 h3 h4 h5 h6 h7 h8 h9 h10 h11 h12 h13 show ?thesis by blast
qed

subsection \<open>The classification loop of \<open>findFiles\<close>\<close>

lemma stats_forEach_fold:
  "stats_forEach E g cwd ps =
     fold (\<lambda>p. forEach_body E g cwd (stat E (resolve E cwd p), resolve E cwd p, p)) ps
       \<lparr>results = [], missingPatterns = [], searches = [(cwd, ([], []))]\<rparr>"
proof -
  have z: "zip (map (stat E) (map (resolve E cwd) ps)) (zip (map (resolve E cwd) ps) ps) =
           map (\<lambda>p. (stat E (resolve E cwd p), resolve E cwd p, p)) ps"
    by (induction ps) simp_all
  show ?thesis
    unfolding stats_forEach_def Let_def z by (simp add: fold_map comp_def)
qed

lemma forEach_body_cases:
  "forEach_body E g cwd (sr, filePath, p) st =
     (case sr of
        Some RegularFile \<Rightarrow> st\<lparr>results := results st @ [filePath]\<rparr>
      | Some Directory \<Rightarrow>
          st\<lparr>searches := push_search filePath (normalizeToPosix filePath @ ''/**'')
                            (normalizeToPosix p) (searches st)\<rparr>
      | Some OtherKind \<Rightarrow> st
      | None \<Rightarrow>
          if g \<and> isGlobPattern E (normalizeToPosix p)
          then st\<lparr>searches := push_search (resolve E cwd (globParent E (normalizeToPosix p)))
                                 filePath (normalizeToPosix p) (searches st)\<rparr>
          else st\<lparr>missingPatterns := missingPatterns st @ [normalizeToPosix p]\<rparr>)"
  by (simp add: forEach_body_def Let_def isFile_def isDirectory_def split: option.splits file_kind.splits)

lemma results_fold:
  "results (fold (\<lambda>p. forEach_body E g cwd (stat E (resolve E cwd p), resolve E cwd p, p)) ps st) =
     results st @ map (resolve E cwd) (filter (\<lambda>p. stat E (resolve E cwd p) = Some RegularFile) ps)"
  by (induction ps arbitrary: st) (auto simp: forEach_body_cases split: option.splits file_kind.splits)

lemma missing_fold:
  "missingPatterns (fold (\<lambda>p. forEach_body E g cwd (stat E (resolve E cwd p), resolve E cwd p, p)) ps st) =
     missingPatterns st @ map normalizeToPosix
       (filter (\<lambda>p. stat E (resolve E cwd p) = None \<and> \<not> (g \<and> isGlobPattern E (normalizeToPosix p))) ps)"
  by (induction ps arbitrary: st) (auto simp: forEach_body_cases split: option.splits file_kind.splits)

lemma searches_fold_files:
  "\<forall>p\<in>set ps. stat E (resolve E cwd p) = Some RegularFile \<Longrightarrow>
   searches (fold (\<lambda>p. forEach_body E g cwd (stat E (resolve E cwd p), resolve E cwd p, p)) ps st) = searches st"
proof (induction ps arbitrary: st)
  case Nil
  show ?case by simp
next
  case (Cons a ps)
  have "forEach_body E g cwd (stat E (resolve E cwd a), resolve E cwd a, a) st =
        st\<lparr>results := results st @ [resolve E cwd a]\<rparr>"
    using Cons.prems by (simp add: forEach_body_cases)
  then show ?case using Cons by simp
qed

lemma results_stats_forEach:
  "results (stats_forEach E g cwd ps) =
     map (resolve E cwd) (filter (\<lambda>p. stat E (resolve E cwd p) = Some RegularFile) ps)"
  by (simp add: stats_forEach_fold results_fold)

lemma missingPatterns_stats_forEach:
  "missingPatterns (stats_forEach E g cwd ps) =
     map normalizeToPosix
       (filter (\<lambda>p. stat E (resolve E cwd p) = None \<and> \<not> (g \<and> isGlobPattern E (normalizeToPosix p))) ps)"
  by (simp add: stats_forEach_fold missing_fold)

lemma stats_forEach_hfs:
  "stats_forEach (E\<lparr>hfs_isDirectory := isd, hfs_list := ls\<rparr>) g cwd ps = stats_forEach E g cwd ps"
proof -
  have "forEach_body (E\<lparr>hfs_isDirectory := isd, hfs_list := ls\<rparr>) g cwd = forEach_body E g cwd"
    by (intro ext) (simp add: forEach_body_def isGlobPattern_def Let_def split: prod.splits option.splits)
  then show ?thesis by (simp add: stats_forEach_def)
qed

lemma Map_get_Map_set: "Map_get (Map_set k v m) k' = (if k' = k then Some v else Map_get m k')"
  by (induction m) auto

lemma push_search_get:
  "Map_get (push_search key p raw m) k =
     (if k = key
      then Some (case Map_get m key of None \<Rightarrow> ([p], [raw]) | Some (a, b) \<Rightarrow> (a @ [p], b @ [raw]))
      else Map_get m k)"
  by (auto simp: push_search_def Map_has_def Map_get_Map_set Let_def split: option.splits)

subsection \<open>Sets and deduplication\<close>

lemma Set_add_eq: "Set_add x ys = (if x \<in> set ys then ys else ys @ [x])"
  by (induction ys) auto

lemma fold_Set_add:
  "fold Set_add xs acc = acc @ dedupe_first (filter (\<lambda>y. y \<notin> set acc) xs)"
proof (induction xs arbitrary: acc)
  case Nil
  show ?case by simp
next
  case (Cons x xs)
  show ?case
  proof (cases "x \<in> set acc")
    case True
    then show ?thesis using Cons.IH [of acc] by (simp add: Set_add_eq)
  next
    case False
    have "filter (\<lambda>y. y \<notin> set (acc @ [x])) xs = filter (\<lambda>y. y \<noteq> x) (filter (\<lambda>y. y \<notin> set acc) xs)"
      by (auto intro: filter_cong)
    then show ?thesis using False Cons.IH [of "acc @ [x]"] by (simp add: Set_add_eq)
  qed
qed

lemma new_Set_dedupe_first: "new_Set xs = dedupe_first xs"
  by (simp add: new_Set_def fold_Set_add)

lemma set_dedupe_first: "set (dedupe_first xs) = set xs"
  by (induction xs rule: dedupe_first.induct) auto

lemma distinct_dedupe_first: "distinct (dedupe_first xs)"
  by (induction xs rule: dedupe_first.induct) (auto simp: set_dedupe_first)

lemma set_new_Set: "set (new_Set xs) = set xs"
  by (simp add: new_Set_dedupe_first set_dedupe_first)

lemma distinct_new_Set: "distinct (new_Set xs)"
  by (simp add: new_Set_dedupe_first distinct_dedupe_first)

lemma new_Set_Nil_iff: "new_Set xs = [] \<longleftrightarrow> xs = []"
  using set_new_Set [of xs] by (metis set_empty)

lemma special_file_dropped:
  "stat E (resolve E cwd p) = Some OtherKind \<Longrightarrow>
   forEach_body E g cwd (stat E (resolve E cwd p), resolve E cwd p, p) st = st"
  by (simp add: forEach_body_cases)

lemma special_file_dropped_example:
  "stat E0 (resolve E0 ''/r'' ''sock'') = Some OtherKind \<and>
   missingPatterns (stats_forEach E0 True ''/r'' [''sock'']) = [] \<and>
   findFiles E0 L0 [''sock''] True ''/r'' True = Inr []"
  by code_simp

text \<open>
  C6, as stated, fails: a pattern that is recorded as missing is recorded with its
  backslashes replaced by forward slashes, not as typed.
\<close>

theorem missing_pattern_not_raw_counterexample:
  "backslash_pattern = [CHR ''d'', CHR 0x5C, CHR ''e''] \<and>
   stat E0 (resolve E0 ''/r'' backslash_pattern) = None \<and>
   \<not> isGlobPattern E0 (normalizeToPosix backslash_pattern) \<and>
   missingPatterns (stats_forEach E0 True ''/r'' [backslash_pattern]) = [''d/e''] \<and>
   ''d/e'' \<noteq> backslash_pattern \<and>
   findFiles E0 L0 [backslash_pattern] True ''/r'' True = Inl (NoFilesFoundError (Some ''d/e'') True)"
  by code_simp

text \<open>
  C6, amended. One round of the classification loop, for the pattern \<open>p\<close>, changes the
  state in exactly one way, decided by the stat of \<open>p\<close> resolved against the working
  directory: a regular file is appended to the results; a directory is appended to
  the search group keyed by its path; when the stat fails, the pattern goes to the
  search group of its glob parent if glob input is enabled and its normalized form is
  a glob pattern, and otherwise its normalized form (backslashes replaced by forward
  slashes) is appended to the missing patterns. Over a whole list the results are the
  regular files and the missing patterns the normalized forms of the patterns of the
  last kind, both in input order.
\<close>

theorem classification_of_patterns:
  "(stat E (resolve E cwd p) = Some RegularFile \<longrightarrow>
      forEach_body E g cwd (stat E (resolve E cwd p), resolve E cwd p, p) st =
        st\<lparr>results := results st @ [resolve E cwd p]\<rparr>) \<and>
   (stat E (resolve E cwd p) = Some Directory \<longrightarrow>
      forEach_body E g cwd (stat E (resolve E cwd p), resolve E cwd p, p) st =
        st\<lparr>searches := push_search (resolve E cwd p) (normalizeToPosix (resolve E cwd p) @ ''/**'')
                          (normalizeToPosix p) (searches st)\<rparr>) \<and>
   (stat E (resolve E cwd p) = None \<and> g \<and> isGlobPattern E (normalizeToPosix p) \<longrightarrow>
      forEach_body E g cwd (stat E (resolve E cwd p), resolve E cwd p, p) st =
        st\<lparr>searches := push_search (resolve E cwd (globParent E (normalizeToPosix p)))
                          (resolve E cwd p) (normalizeToPosix p) (searches st)\<rparr>) \<and>
   (stat E (resolve E cwd p) = None \<and> \<not> (g \<and> isGlobPattern E (normalizeToPosix p)) \<longrightarrow>
      forEach_body E g cwd (stat E (resolve E cwd p), resolve E cwd p, p) st =
        st\<lparr>missingPatterns := missingPatterns st @ [normalizeToPosix p]\<rparr>) \<and>
   results (stats_forEach E g cwd ps) =
     map (resolve E cwd) (filter (\<lambda>p. stat E (resolve E cwd p) = Some RegularFile) ps) \<and>
   missingPatterns (stats_forEach E g cwd ps) =
     map normalizeToPosix
       (filter (\<lambda>p. stat E (resolve E cwd p) = None \<and> \<not> (g \<and> isGlobPattern E (normalizeToPosix p))) ps)"
  by (simp add: forEach_body_cases results_stats_forEach missingPatterns_stats_forEach)

theorem classification_of_patterns_witness:
  "stat E0 (resolve E0 ''/r'' ''a/x.js'') = Some RegularFile \<and>
   forEach_body E0 True ''/r'' (stat E0 (resolve E0 ''/r'' ''a/x.js''), resolve E0 ''/r'' ''a/x.js'', ''a/x.js'')
       \<lparr>results = [], missingPatterns = [], searches = [(''/r'', ([], []))]\<rparr> =
     \<lparr>results = [''/r/a/x.js''], missingPatterns = [], searches = [(''/r'', ([], []))]\<rparr> \<and>
   stat E0 (resolve E0 ''/r'' ''a'') = Some Directory \<and>
   forEach_body E0 True ''/r'' (stat E0 (resolve E0 ''/r'' ''a''), resolve E0 ''/r'' ''a'', ''a'')
       \<lparr>results = [], missingPatterns = [], searches = [(''/r'', ([], []))]\<rparr> =
     \<lparr>results = [], missingPatterns = [],
        searches = [(''/r'', ([], [])), (''/r/a'', ([''/r/a/**''], [''a'']))]\<rparr> \<and>
   stat E0 (resolve E0 ''/r'' ''**/*.js'') = None \<and> isGlobPattern E0 (normalizeToPosix ''**/*.js'') \<and>
   forEach_body E0 True ''/r'' (stat E0 (resolve E0 ''/r'' ''**/*.js''), resolve E0 ''/r'' ''**/*.js'', ''**/*.js'')
       \<lparr>results = [], missingPatterns = [], searches = [(''/r'', ([], []))]\<rparr> =
     \<lparr>results = [], missingPatterns = [], searches = [(''/r'', ([''/r/**/*.js''], [''**/*.js'']))]\<rparr> \<and>
   stat E0 (resolve E0 ''/r'' backslash_pattern) = None \<and>
   \<not> (True \<and> isGlobPattern E0 (normalizeToPosix backslash_pattern)) \<and>
   forEach_body E0 True ''/r'' (stat E0 (resolve E0 ''/r'' backslash_pattern), resolve E0 ''/r'' backslash_pattern, backslash_pattern)
       \<lparr>results = [], missingPatterns = [], searches = [(''/r'', ([], []))]\<rparr> =
     \<lparr>results = [], missingPatterns = [''d/e''], searches = [(''/r'', ([], []))]\<rparr> \<and>
   results (stats_forEach E0 True ''/r'' [''a/x.js'', ''a'', ''**/*.js'', backslash_pattern]) = [''/r/a/x.js''] \<and>
   missingPatterns (stats_forEach E0 True ''/r'' [''a/x.js'', ''a'', ''**/*.js'', backslash_pattern]) = [''d/e'']"
proof -
  let ?st = "\<lparr>results = [], missingPatterns = [], searches = [(''/r'', ([], []))]\<rparr>"
  have s1: "stat E0 (resolve E0 ''/r'' ''a/x.js'') = Some RegularFile" by code_simp
  have s2: "stat E0 (resolve E0 ''/r'' ''a'') = Some Directory" by code_simp
  have s3: "stat E0 (resolve E0 ''/r'' ''**/*.js'') = None \<and> True \<and> isGlobPattern E0 (normalizeToPosix ''**/*.js'')"
    by code_simp
  have s4: "stat E0 (resolve E0 ''/r'' backslash_pattern) = None \<and>
            \<not> (True \<and> isGlobPattern E0 (normalizeToPosix backslash_pattern))"
    by code_simp
  have v1: "?st\<lparr>results := results ?st @ [resolve E0 ''/r'' ''a/x.js'']\<rparr> =
            \<lparr>results = [''/r/a/x.js''], missingPatterns = [], searches = [(''/r'', ([], []))]\<rparr>"
    by code_simp
  have v2: "?st\<lparr>searches := push_search (resolve E0 ''/r'' ''a'') (normalizeToPosix (resolve E0 ''/r'' ''a'') @ ''/**'')
                          (normalizeToPosix ''a'') (searches ?st)\<rparr> =
            \<lparr>results = [], missingPatterns = [],
               searches = [(''/r'', ([], [])), (''/r/a'', ([''/r/a/**''], [''a'']))]\<rparr>"
    by code_simp
  have v3: "?st\<lparr>searches := push_search (resolve E0 ''/r'' (globParent E0 (normalizeToPosix ''**/*.js'')))
                          (resolve E0 ''/r'' ''**/*.js'') (normalizeToPosix ''**/*.js'') (searches ?st)\<rparr> =
            \<lparr>results = [], missingPatterns = [], searches = [(''/r'', ([''/r/**/*.js''], [''**/*.js'']))]\<rparr>"
    by code_simp
  have v4: "?st\<lparr>missingPatterns := missingPatterns ?st @ [normalizeToPosix backslash_pattern]\<rparr> =
            \<lparr>results = [], missingPatterns = [''d/e''], searches = [(''/r'', ([], []))]\<rparr>"
    by code_simp
  have v5: "map (resolve E0 ''/r'') (filter (\<lambda>p. stat E0 (resolve E0 ''/r'' p) = Some RegularFile)
               [''a/x.js'', ''a'', ''**/*.js'', backslash_pattern]) = [''/r/a/x.js'']"
    by code_simp
  have v6: "map normalizeToPosix
       (filter (\<lambda>p. stat E0 (resolve E0 ''/r'' p) = None \<and> \<not> (True \<and> isGlobPattern E0 (normalizeToPosix p)))
          [''a/x.js'', ''a'', ''**/*.js'', backslash_pattern]) = [''d/e'']"
    by code_simp
  note t = classification_of_patterns [where E = E0 and g = True and cwd = "''/r''" and st = ?st
      and ps = "[''a/x.js'', ''a'', ''**/*.js'', backslash_pattern]"]
  have c1: "forEach_body E0 True ''/r'' (stat E0 (resolve E0 ''/r'' ''a/x.js''), resolve E0 ''/r'' ''a/x.js'', ''a/x.js'') ?st =
     \<lparr>results = [''/r/a/x.js''], missingPatterns = [], searches = [(''/r'', ([], []))]\<rparr>"
    using t [where p = "''a/x.js''"] s1 unfolding v1 by blast
  have c2: "forEach_body E0 True ''/r'' (stat E0 (resolve E0 ''/r'' ''a''), resolve E0 ''/r'' ''a'', ''a'') ?st =
     \<lparr>results = [], missingPatterns = [],
        searches = [(''/r'', ([], [])), (''/r/a'', ([''/r/a/**''], [''a'']))]\<rparr>"
    using t [where p = "''a''"] s2 unfolding v2 by blast
  have c3: "forEach_body E0 True ''/r'' (stat E0 (resolve E0 ''/r'' ''**/*.js''), resolve E0 ''/r'' ''**/*.js'', ''**/*.js'') ?st =
     \<lparr>results = [], missingPatterns = [], searches = [(''/r'', ([''/r/**/*.js''], [''**/*.js'']))]\<rparr>"
    using t [where p = "''**/*.js''"] s3 unfolding v3 by blast
  have c4: "forEach_body E0 True ''/r'' (stat E0 (resolve E0 ''/r'' backslash_pattern), resolve E0 ''/r'' backslash_pattern, backslash_pattern) ?st =
     \<lparr>results = [], missingPatterns = [''d/e''], searches = [(''/r'', ([], []))]\<rparr>"
    using t [where p = backslash_pattern] s4 unfolding v4 by blast
  have c5: "results (stats_forEach E0 True ''/r'' [''a/x.js'', ''a'', ''**/*.js'', backslash_pattern]) = [''/r/a/x.js'']"
    using t [where p = "''a''"] unfolding v5 by blast
  have c6: "missingPatterns (stats_forEach E0 True ''/r'' [''a/x.js'', ''a'', ''**/*.js'', backslash_pattern]) = [''d/e'']"
    using t [where p = "''a''"] unfolding v6 by blast
  from s1 s2 s3 s4 c1 c2 c3 c4 c5 c6 show ?thesis by blast
qed

text \<open>
  C7. With \<open>errorOnUnmatchedPattern\<close> true and a missing pattern after classification,
  \<open>findFiles\<close> fails with \<open>NoFilesFoundError\<close> carrying the first missing pattern and
  the \<open>globInputPaths\<close> flag. The result is the same for every configuration loader
  and for every behaviour of the directory walker and of \<open>hfs.isDirectory\<close>: none of
  them is consulted.
\<close>

theorem missing_pattern_fails_before_search:
  "missingPatterns (stats_forEach E g cwd ps) = m # ms \<Longrightarrow>
   findFiles (E\<lparr>hfs_isDirectory := isd, hfs_list := ls\<rparr>) loader ps g cwd True =
     Inl (NoFilesFoundError (Some m) g)"
  by (simp add: findFiles_def stats_forEach_hfs js_get_def Let_def)

theorem missing_pattern_fails_before_search_witness:
  "missingPatterns (stats_forEach E0 True ''/r'' [''**/*.js'', ''nope'', ''nada'']) = [''nope'', ''nada''] \<and>
   findFiles (E0\<lparr>hfs_isDirectory := (\<lambda>p. Inl ''EIO''), hfs_list := (\<lambda>p. ReadFails ''EIO'')\<rparr>)
       \<lparr>isDirectoryIgnored = (\<lambda>p. Inl ''no loader''), getConfig = (\<lambda>p. Inl ''no loader'')\<rparr>
       [''**/*.js'', ''nope'', ''nada''] True ''/r'' True =
     Inl (NoFilesFoundError (Some ''nope'') True)"
proof -
  have h: "missingPatterns (stats_forEach E0 True ''/r'' [''**/*.js'', ''nope'', ''nada'']) = [''nope'', ''nada'']"
    by code_simp
  from h missing_pattern_fails_before_search [OF h] show ?thesis by blast
qed

lemma globMultiSearch_seed:
  "globMultiSearch E loader [(cwd, ([], []))] eou = Inr []"
  by (simp add: globMultiSearch_def normalizedSearches_def flatMap_value_def)

lemma findFiles_Inr:
  "findFiles E loader ps g cwd eou = Inr res \<Longrightarrow>
   \<exists>globbyResults. globMultiSearch E loader (searches (stats_forEach E g cwd ps)) eou = Inr globbyResults \<and>
      res = new_Set (map Some (results (stats_forEach E g cwd ps)) @ globbyResults)"
  by (auto simp: findFiles_def Let_def split: if_splits sum.splits)

text \<open>
  C8. A pattern that resolves against the working directory to a regular file is in
  the list that \<open>findFiles\<close> returns, as its resolved path, whatever the loader answers
  (first conjunct). When every pattern is such a file, \<open>findFiles\<close> returns their
  resolved paths for every loader and every \<open>errorOnUnmatchedPattern\<close>, so the loader
  is not asked about them (second conjunct).
\<close>

theorem literal_file_is_returned:
  "(findFiles E loader ps g cwd eou = Inr res \<and> p \<in> set ps \<and>
    stat E (resolve E cwd p) = Some RegularFile \<longrightarrow> Some (resolve E cwd p) \<in> set res) \<and>
   ((\<forall>q\<in>set ps. stat E (resolve E cwd q) = Some RegularFile) \<longrightarrow>
      findFiles E loader ps g cwd eou = Inr (new_Set (map (\<lambda>q. Some (resolve E cwd q)) ps)))"
proof (intro conjI impI)
  assume a: "findFiles E loader ps g cwd eou = Inr res \<and> p \<in> set ps \<and>
    stat E (resolve E cwd p) = Some RegularFile"
  then obtain gr where res: "res = new_Set (map Some (results (stats_forEach E g cwd ps)) @ gr)"
    using findFiles_Inr by blast
  from a have "resolve E cwd p \<in> set (results (stats_forEach E g cwd ps))"
    by (auto simp: results_stats_forEach)
  then show "Some (resolve E cwd p) \<in> set res"
    unfolding res set_new_Set by simp
next
  assume a: "\<forall>q\<in>set ps. stat E (resolve E cwd q) = Some RegularFile"
  have s: "searches (stats_forEach E g cwd ps) = [(cwd, ([], []))]"
    using searches_fold_files [OF a] by (simp add: stats_forEach_fold)
  have m: "missingPatterns (stats_forEach E g cwd ps) = []"
    using a by (auto simp: missingPatterns_stats_forEach filter_empty_conv)
  have r: "results (stats_forEach E g cwd ps) = map (resolve E cwd) ps"
    using a by (simp add: results_stats_forEach)
  show "findFiles E loader ps g cwd eou = Inr (new_Set (map (\<lambda>q. Some (resolve E cwd q)) ps))"
    by (simp add: findFiles_def Let_def s m r globMultiSearch_seed comp_def)
qed

theorem literal_file_is_returned_witness:
  "getConfig L0 ''/r/a/y.txt'' = Inr None \<and>
   findFiles E0 L0 [''a/y.txt'', ''a''] True ''/r'' True = Inr [Some ''/r/a/y.txt'', Some ''/r/a/x.js''] \<and>
   stat E0 (resolve E0 ''/r'' ''a/y.txt'') = Some RegularFile \<and>
   Some (resolve E0 ''/r'' ''a/y.txt'') \<in> set [Some ''/r/a/y.txt'', Some ''/r/a/x.js''] \<and>
   findFiles E0 \<lparr>isDirectoryIgnored = (\<lambda>p. Inl ''no loader''), getConfig = (\<lambda>p. Inl ''no loader'')\<rparr>
      [''a/y.txt''] True ''/r'' True = Inr [Some ''/r/a/y.txt'']"
proof -
  have h0: "getConfig L0 ''/r/a/y.txt'' = Inr None" by code_simp
  have h1: "findFiles E0 L0 [''a/y.txt'', ''a''] True ''/r'' True = Inr [Some ''/r/a/y.txt'', Some ''/r/a/x.js'']"
    by code_simp
  have h2: "stat E0 (resolve E0 ''/r'' ''a/y.txt'') = Some RegularFile" by code_simp
  have h3: "\<forall>q\<in>set [''a/y.txt'']. stat E0 (resolve E0 ''/r'' q) = Some RegularFile" by code_simp
  have h4: "new_Set (map (\<lambda>q. Some (resolve E0 ''/r'' q)) [''a/y.txt'']) = [Some ''/r/a/y.txt'']" by code_simp
  have c1: "Some (resolve E0 ''/r'' ''a/y.txt'') \<in> set [Some ''/r/a/y.txt'', Some ''/r/a/x.js'']"
    using literal_file_is_returned [where E = E0 and loader = L0 and ps = "[''a/y.txt'', ''a'']"
        and g = True and cwd = "''/r''" and eou = True and p = "''a/y.txt''"
        and res = "[Some ''/r/a/y.txt'', Some ''/r/a/x.js'']"] h1 h2 by simp
  have c2: "findFiles E0 \<lparr>isDirectoryIgnored = (\<lambda>p. Inl ''no loader''), getConfig = (\<lambda>p. Inl ''no loader'')\<rparr>
      [''a/y.txt''] True ''/r'' True = Inr [Some ''/r/a/y.txt'']"
    using literal_file_is_returned [where E = E0 and ps = "[''a/y.txt'']" and g = True and cwd = "''/r''"
        and eou = True
        and loader = "\<lparr>isDirectoryIgnored = (\<lambda>p. Inl ''no loader''), getConfig = (\<lambda>p. Inl ''no loader'')\<rparr>"]
      h3 unfolding h4 by blast
  from h0 h1 h2 c1 c2 show ?thesis by blast
qed

subsection \<open>How \<open>globSearch\<close> fails\<close>

lemma set_Map_set: "set (Map_set k v m) \<subseteq> insert (k, v) (set m)"
  by (induction m) (auto split: if_splits)

lemma Map_set_not_Nil: "Map_set k v m \<noteq> []"
  by (cases m) (auto split: if_splits)

lemma set_fold_Map_set: "set (fold (\<lambda>(k, v). Map_set k v) kvs m) \<subseteq> set kvs \<union> set m"
proof (induction kvs arbitrary: m)
  case Nil
  show ?case by simp
next
  case (Cons kv kvs)
  obtain k v where kv: "kv = (k, v)" by (cases kv)
  show ?case using Cons.IH [of "Map_set k v m"] set_Map_set [of k v m] by (auto simp: kv)
qed

lemma fold_Map_set_not_Nil: "kvs \<noteq> [] \<or> m \<noteq> [] \<Longrightarrow> fold (\<lambda>(k, v). Map_set k v) kvs m \<noteq> []"
proof (induction kvs arbitrary: m)
  case Nil
  then show ?case by simp
next
  case (Cons kv kvs)
  obtain k v where kv: "kv = (k, v)" by (cases kv)
  show ?case using Cons.IH [of "Map_set k v m"] by (simp add: kv Map_set_not_Nil)
qed

lemma Map_get_key: "k \<in> set (Map_keys m) \<Longrightarrow> \<exists>v. Map_get m k = Some v \<and> (k, v) \<in> set m"
  unfolding Map_keys_def by (induction m) force+

lemma relativeToPatterns_values: "(k, v) \<in> set (relativeToPatterns E basePath ps) \<Longrightarrow> v \<in> set ps"
  using set_fold_Map_set [of "zip (patternsToUse E basePath ps) ps" "[]"]
  unfolding relativeToPatterns_def by (auto dest: set_zip_rightD)

lemma relativeToPatterns_keys_not_Nil:
  "ps \<noteq> [] \<Longrightarrow> new_Set (Map_keys (relativeToPatterns E basePath ps)) \<noteq> []"
proof -
  assume "ps \<noteq> []"
  then have "zip (patternsToUse E basePath ps) ps \<noteq> []"
    by (cases ps) (auto simp: patternsToUse_def)
  then have "relativeToPatterns E basePath ps \<noteq> []"
    unfolding relativeToPatterns_def by (simp add: fold_Map_set_not_Nil)
  then show ?thesis by (simp add: new_Set_Nil_iff Map_keys_def)
qed

lemma unmatched_are_patterns:
  assumes "set u \<subseteq> set (new_Set (Map_keys (relativeToPatterns E basePath ps)))"
  shows "set (map (Map_get (relativeToPatterns E basePath ps)) u) \<subseteq> Some ` set ps"
proof
  fix x assume "x \<in> set (map (Map_get (relativeToPatterns E basePath ps)) u)"
  then obtain k where k: "k \<in> set u" and x: "x = Map_get (relativeToPatterns E basePath ps) k" by auto
  from k assms have "k \<in> set (Map_keys (relativeToPatterns E basePath ps))"
    by (auto simp: set_new_Set)
  from Map_get_key [OF this] obtain v where "Map_get (relativeToPatterns E basePath ps) k = Some v"
    and "(k, v) \<in> set (relativeToPatterns E basePath ps)" by blast
  then show "x \<in> Some ` set ps" using x relativeToPatterns_values by fastforce
qed

lemma globSearch_Inl:
  assumes "globSearch E loader basePath ps rs eou = Inl e"
  shows "(\<exists>msg. e = SystemError msg) \<or>
         (eou \<and> (\<exists>u. u \<noteq> [] \<and> set u \<subseteq> Some ` set ps \<and> e = UnmatchedSearchPatternsError basePath u ps rs))"
proof -
  from assms have ne: "ps \<noteq> []" by (auto simp: globSearch_def)
  show ?thesis
  proof (cases "hfs_isDirectory E basePath")
    case (Inl msg)
    then show ?thesis using assms ne by (auto simp: globSearch_def)
  next
    case (Inr isDir)
    show ?thesis
    proof (cases isDir)
      case False
      with Inr have nd: "hfs_isDirectory E basePath = Inr False" by simp
      show ?thesis
        using assms unmatched_are_patterns [OF subset_refl, of E basePath ps]
        unfolding globSearch_not_directory [OF ne nd]
        by (auto split: if_splits)
    next
      case True
      with Inr have d: "hfs_isDirectory E basePath = Inr True" by simp
      note ok = globSearch_walk_ok [of E basePath ps loader, unfolded walk_ok_def]
      show ?thesis
      proof (cases "snd (globSearch_walk E loader basePath ps)")
        case (Inl err)
        then show ?thesis using assms ok unfolding globSearch_directory [OF ne d] by auto
      next
        case (Inr u)
        then have sub: "set u \<subseteq> set (new_Set (Map_keys (relativeToPatterns E basePath ps)))"
          using ok by simp
        show ?thesis
          using assms Inr unmatched_are_patterns [OF sub]
          unfolding globSearch_directory [OF ne d]
          by (auto split: if_splits)
      qed
    qed
  qed
qed

lemma globSearch_False_Inl:
  "globSearch E loader basePath ps rs False = Inl e \<Longrightarrow> \<exists>msg. e = SystemError msg"
  using globSearch_Inl by blast

subsection \<open>\<open>globMultiSearch\<close> and \<open>findFiles\<close>\<close>

lemma rejected_loop_None_iff:
  "rejected_loop E eou (zip (map (\<lambda>(b, p, r). globSearch E loader b p r eou) ns) ns) = None \<longleftrightarrow>
     (\<forall>s\<in>set ns. \<exists>v. (case s of (b, p, r) \<Rightarrow> globSearch E loader b p r eou) = Inr v)"
proof (induction ns)
  case Nil
  show ?case by simp
next
  case (Cons s ns)
  obtain b p r where s: "s = (b, p, r)" by (cases s)
  show ?case
  proof (cases "globSearch E loader b p r eou")
    case (Inr v)
    then show ?thesis using Cons.IH by (simp add: s)
  next
    case (Inl err)
    from globSearch_Inl [OF Inl]
    have "rejected_loop E eou ((Inl err, (b, p, r)) #
            zip (map (\<lambda>(b, p, r). globSearch E loader b p r eou) ns) ns) \<noteq> None"
      by (auto split: error.splits)
    then show ?thesis using Inl by (simp add: s)
  qed
qed

lemma rejected_loop_False_Some:
  "rejected_loop E False (zip (map (\<lambda>(b, p, r). globSearch E loader b p r False) ns) ns) = Some e \<Longrightarrow>
     \<exists>s\<in>set ns. (case s of (b, p, r) \<Rightarrow> globSearch E loader b p r False) = Inl e"
proof (induction ns)
  case Nil
  then show ?case by simp
next
  case (Cons s ns)
  obtain b p r where s: "s = (b, p, r)" by (cases s)
  show ?case
  proof (cases "globSearch E loader b p r False")
    case (Inr v)
    then show ?thesis using Cons by (simp add: s)
  next
    case (Inl err)
    from globSearch_False_Inl [OF Inl] obtain msg where "err = SystemError msg" by blast
    then show ?thesis using Inl Cons.prems by (simp add: s)
  qed
qed

lemma rejected_loop_prefix:
  "\<forall>s\<in>set pre. \<exists>v. f s = Inr v \<Longrightarrow>
   rejected_loop E eou (zip (map f (pre @ rest)) (pre @ rest)) = rejected_loop E eou (zip (map f rest) rest)"
  by (induction pre) auto

lemma flatMap_value_Inr: "flatMap_value (map Inr vs) = map Some (concat vs)"
  by (induction vs) (simp_all add: flatMap_value_def)

lemma all_Inr_map:
  "\<forall>s\<in>set ns. \<exists>v. f s = Inr v \<Longrightarrow> \<exists>vs. map f ns = map Inr vs"
proof (induction ns)
  case Nil
  show ?case by simp
next
  case (Cons s ns)
  then obtain v vs where "f s = Inr v" and "map f ns = map Inr vs" by auto
  then have "map f (s # ns) = map Inr (v # vs)" by simp
  then show ?case by blast
qed

text \<open>
  C9. When \<open>findFiles\<close> returns, every group search has succeeded, and the list
  returned is the literal files followed by the results of the group searches, in
  group order, deduplicated keeping the first occurrence of every path; it has no
  duplicates, and no element of it is \<open>undefined\<close>.
\<close>

theorem findFiles_result_deduplicated:
  "findFiles E loader ps g cwd eou = Inr res \<Longrightarrow>
   distinct res \<and> None \<notin> set res \<and>
   (\<exists>vs. map (\<lambda>(b, p, r). globSearch E loader b p r eou)
            (normalizedSearches (searches (stats_forEach E g cwd ps))) = map Inr vs \<and>
         res = dedupe_first (map Some (results (stats_forEach E g cwd ps)) @ map Some (concat vs)))"
proof -
  assume a: "findFiles E loader ps g cwd eou = Inr res"
  let ?ns = "normalizedSearches (searches (stats_forEach E g cwd ps))"
  let ?f = "\<lambda>(b, p, r). globSearch E loader b p r eou"
  from findFiles_Inr [OF a] obtain gr where
    gm: "globMultiSearch E loader (searches (stats_forEach E g cwd ps)) eou = Inr gr"
    and res: "res = new_Set (map Some (results (stats_forEach E g cwd ps)) @ gr)" by blast
  from gm have none: "rejected_loop E eou (zip (map ?f ?ns) ?ns) = None"
    and gr: "gr = flatMap_value (map ?f ?ns)"
    by (auto simp: globMultiSearch_def Let_def split: option.splits)
  from none have "\<forall>s\<in>set ?ns. \<exists>v. ?f s = Inr v"
    by (simp only: rejected_loop_None_iff)
  from all_Inr_map [OF this] obtain vs where vs: "map ?f ?ns = map Inr vs" by blast
  have "res = dedupe_first (map Some (results (stats_forEach E g cwd ps)) @ map Some (concat vs))"
    unfolding res gr vs flatMap_value_Inr new_Set_dedupe_first ..
  moreover have "distinct res" unfolding res by (rule distinct_new_Set)
  moreover have "None \<notin> set res"
    unfolding res gr vs flatMap_value_Inr set_new_Set by auto
  ultimately show ?thesis using vs by blast
qed

theorem findFiles_result_deduplicated_witness:
  "findFiles E0 L0 [''a/x.js'', ''a'', ''**/*.js''] True ''/r'' True =
     Inr [Some ''/r/a/x.js'', Some ''/r/c/d/w.js'', Some ''/r/c/d/.hidden.js''] \<and>
   results (stats_forEach E0 True ''/r'' [''a/x.js'', ''a'', ''**/*.js'']) = [''/r/a/x.js''] \<and>
   map (\<lambda>(b, p, r). globSearch E0 L0 b p r True)
     (normalizedSearches (searches (stats_forEach E0 True ''/r'' [''a/x.js'', ''a'', ''**/*.js'']))) =
     [Inr [''/r/a/x.js'', ''/r/c/d/w.js'', ''/r/c/d/.hidden.js''], Inr [''/r/a/x.js'']] \<and>
   distinct [Some ''/r/a/x.js'', Some ''/r/c/d/w.js'', Some ''/r/c/d/.hidden.js''] \<and>
   (\<exists>vs. map (\<lambda>(b, p, r). globSearch E0 L0 b p r True)
            (normalizedSearches (searches (stats_forEach E0 True ''/r'' [''a/x.js'', ''a'', ''**/*.js'']))) =
          map Inr vs \<and>
         [Some ''/r/a/x.js'', Some ''/r/c/d/w.js'', Some ''/r/c/d/.hidden.js''] =
          dedupe_first (map Some (results (stats_forEach E0 True ''/r'' [''a/x.js'', ''a'', ''**/*.js'']))
                          @ map Some (concat vs)))"
proof -
  have h1: "findFiles E0 L0 [''a/x.js'', ''a'', ''**/*.js''] True ''/r'' True =
     Inr [Some ''/r/a/x.js'', Some ''/r/c/d/w.js'', Some ''/r/c/d/.hidden.js'']"
    by code_simp
  have h2: "results (stats_forEach E0 True ''/r'' [''a/x.js'', ''a'', ''**/*.js'']) = [''/r/a/x.js'']"
    by code_simp
  have h3: "map (\<lambda>(b, p, r). globSearch E0 L0 b p r True)
     (normalizedSearches (searches (stats_forEach E0 True ''/r'' [''a/x.js'', ''a'', ''**/*.js'']))) =
     [Inr [''/r/a/x.js'', ''/r/c/d/w.js'', ''/r/c/d/.hidden.js''], Inr [''/r/a/x.js'']]"
    by code_simp
  from findFiles_result_deduplicated [OF h1] h1 h2 h3 show ?thesis by blast
qed

subsection \<open>The error a walk ends with\<close>

lemma filter_fails_Inl: "filter_fails F f \<Longrightarrow> f e s = Inl err \<Longrightarrow> F e = Some err"
  unfolding filter_fails_def by (metis sum.simps(5))

lemma filter_fails_Inr: "filter_fails F f \<Longrightarrow> f e s = Inr r \<Longrightarrow> F e = None"
  unfolding filter_fails_def by (metis sum.simps(6))

lemma walk_list_walk_dir_first_error:
  shows "filter_fails DF df \<Longrightarrow> filter_answers D df \<Longrightarrow> filter_fails EF ef \<Longrightarrow>
           ends_as (snd (walk_list df ef pp d es st)) (first_error_list EF DF D pp d es)"
    and "filter_fails DF df \<Longrightarrow> filter_answers D df \<Longrightarrow> filter_fails EF ef \<Longrightarrow>
           ends_as (snd (walk_dir df ef pp d rd st)) (first_error_dir EF DF D pp d rd)"
proof (induction df ef pp d es st and df ef pp d rd st rule: walk_list_walk_dir.induct)
  case (1 directoryFilter entryFilter parentPath d st)
  then show ?case by (simp add: ends_as_def)
next
  case (2 df ef pp d n isDir rd rest st)
  define we where "we = walkEntry_of pp d n isDir"
  note fd = "2.prems"(1) and ad = "2.prems"(2) and fe = "2.prems"(3)
  show ?case
  proof (cases "ef we st")
    case (Inl e)
    then show ?thesis using filter_fails_Inl [OF fe Inl]
      by (simp add: we_def walk_list_ef_fails ends_as_def)
  next
    case (Inr r)
    obtain emit st1 where r: "r = (emit, st1)" by (cases r)
    have eq: "ef we st = Inr (emit, st1)" using Inr r by simp
    have ne: "EF we = None" using filter_fails_Inr [OF fe eq] .
    show ?thesis
    proof (cases isDir)
      case False
      have "ends_as (snd (walk_list df ef pp d rest st1)) (first_error_list EF DF D pp d rest)"
        using "2.IH"(4) [OF we_def eq refl refl False fd ad fe] .
      then show ?thesis using eq False ne
        by (simp add: we_def walk_list_file)
    next
      case True
      show ?thesis
      proof (cases "df we st1")
        case (Inl e)
        then show ?thesis using eq True ne filter_fails_Inl [OF fd Inl]
          by (simp add: we_def walk_list_df_fails ends_as_def)
      next
        case (Inr q)
        obtain go st2 where q: "q = (go, st2)" by (cases q)
        have eq2: "df we st1 = Inr (go, st2)" using Inr q by simp
        have go: "go = D we" using filter_answersD [OF ad eq2] .
        have nd: "DF we = None" using filter_fails_Inr [OF fd eq2] .
        show ?thesis
        proof (cases go)
          case False
          have "ends_as (snd (walk_list df ef pp d rest st2)) (first_error_list EF DF D pp d rest)"
            using "2.IH"(1) [OF we_def eq refl refl True eq2 refl _ fd ad fe] False by simp
          then show ?thesis using eq eq2 True False ne nd go
            by (simp add: we_def walk_list_pruned)
        next
          case goT: True
          have dd: "ends_as (snd (walk_dir df ef (path we) (d + 1) rd st2))
                      (first_error_dir EF DF D (path we) (d + 1) rd)"
            using "2.IH"(2) [OF we_def eq refl refl True eq2 refl _ fd ad fe] goT by simp
          show ?thesis
          proof (cases "walk_dir df ef (path we) (d + 1) rd st2")
            case (Pair ws r3)
            show ?thesis
            proof (cases r3)
              case (Inl e)
              then show ?thesis using eq eq2 True goT Pair ne nd go dd
                by (simp add: we_def walk_list_descend_fails ends_as_def)
            next
              case (Inr st3)
              have sd: "snd (walk_dir df ef (path we) (d + 1) rd st2) = Inr st3"
                using Pair Inr by simp
              have "ends_as (snd (walk_list df ef pp d rest st3)) (first_error_list EF DF D pp d rest)"
                using "2.IH"(3) [OF we_def eq refl refl True eq2 refl _ Pair [symmetric] Inr fd ad fe] goT
                by simp
              then show ?thesis using eq eq2 True goT sd ne nd go dd
                by (simp add: we_def walk_list_descend ends_as_def)
            qed
          qed
        qed
      qed
    qed
  qed
next
  case (3 directoryFilter entryFilter parentPath d e st)
  then show ?case by (simp add: ends_as_def)
next
  case (4 directoryFilter entryFilter parentPath d es st)
  then show ?case by simp
qed

lemma entryFilter_fails:
  "filter_fails (entry_error E loader basePath) (entryFilter E loader basePath ms)"
  unfolding filter_fails_def entryFilter_eq entry_error_def
  by (auto split: sum.splits)

lemma directoryFilter_fails:
  "filter_fails (directory_error E loader basePath ms) (directoryFilter E loader basePath ms)"
  unfolding filter_fails_def directoryFilter_eq directory_error_def
  by (auto split: sum.splits)

lemma globSearch_walk_first_error:
  "ends_as (snd (globSearch_walk E loader basePath ps))
     (first_error_dir (entry_error E loader basePath)
        (directory_error E loader basePath (compile_matchers E basePath ps))
        (directory_entered E loader basePath (compile_matchers E basePath ps)) [] 1 (hfs_list E basePath))"
  unfolding globSearch_walk_def walk_def
  by (rule walk_list_walk_dir_first_error(2) [OF directoryFilter_fails directoryFilter_answers entryFilter_fails])

lemma globSearch_False_eq:
  assumes ne: "ps \<noteq> []"
  shows "globSearch E loader basePath ps rs False =
     (case hfs_isDirectory E basePath of
        Inl msg \<Rightarrow> Inl (SystemError msg)
      | Inr isDir \<Rightarrow>
          if \<not> isDir then Inr []
          else
            (case first_error_dir (entry_error E loader basePath)
                    (directory_error E loader basePath (compile_matchers E basePath ps))
                    (directory_entered E loader basePath (compile_matchers E basePath ps)) [] 1
                    (hfs_list E basePath) of
               Some err \<Rightarrow> Inl err
             | None \<Rightarrow>
                 Inr (map (\<lambda>e. resolve E basePath (path e))
                        (filter (entry_accepted E loader basePath (compile_matchers E basePath ps))
                           (visited_dir (directory_entered E loader basePath (compile_matchers E basePath ps))
                              [] 1 (hfs_list E basePath))))))"
proof (cases "hfs_isDirectory E basePath")
  case (Inl msg)
  then show ?thesis using ne by (simp add: globSearch_def)
next
  case (Inr isDir)
  show ?thesis
  proof (cases isDir)
    case False
    with Inr have nd: "hfs_isDirectory E basePath = Inr False" by simp
    show ?thesis unfolding globSearch_not_directory [OF ne nd] using nd by simp
  next
    case True
    with Inr have d: "hfs_isDirectory E basePath = Inr True" by simp
    note fe = globSearch_walk_first_error [of E loader basePath ps, unfolded ends_as_def]
    show ?thesis
    proof (cases "snd (globSearch_walk E loader basePath ps)")
      case (Inl err)
      then show ?thesis using fe d unfolding globSearch_directory [OF ne d] by simp
    next
      case (Inr u)
      have "map (\<lambda>y. resolve E basePath (path (fst y))) (fst (globSearch_walk E loader basePath ps)) =
            map (\<lambda>e. resolve E basePath (path e)) (map fst (fst (globSearch_walk E loader basePath ps)))"
        by (simp add: comp_def)
      then show ?thesis using fe d Inr globSearch_walk_visited [OF Inr]
        unfolding globSearch_directory [OF ne d] by simp
    qed
  qed
qed

lemma rejected_loop_first_failure:
  assumes "\<forall>s\<in>set pre. \<exists>v. f s = Inr v" and "f (b, p, r) = Inl (SystemError msg)"
  shows "rejected_loop E eou (zip (map f (pre @ (b, p, r) # post)) (pre @ (b, p, r) # post)) =
           Some (SystemError msg)"
  unfolding rejected_loop_prefix [OF assms(1)] using assms(2) by simp

text \<open>
  C4. With \<open>errorOnUnmatchedPattern\<close> false, an error of \<open>findFiles\<close> is never one of
  the three discovery errors: it is a system error, and it is the very error with
  which the search of one of the groups failed (first conjunct). Conversely, when the
  search of some group fails, \<open>findFiles\<close> fails (second conjunct), and it fails with
  the unchanged error of the first group, in group order, whose search fails (third
  conjunct). Fourth conjunct: what the search of a group with patterns gives without the
  flag. When \<open>hfs.isDirectory\<close> rejects, that rejection; when the base path is not a
  directory, no file; otherwise the first failure of the walk in visiting order, if
  there is one: the loader's error for the configuration of an entry that is not a
  directory, its error for whether a directory that some matcher prefix-matches is
  ignored, or the error of reading a directory that is entered; and the accepted files
  when there is none.
\<close>

theorem no_discovery_error_without_flag:
  "(findFiles E loader ps g cwd False = Inl e \<longrightarrow>
      (\<exists>msg. e = SystemError msg) \<and>
      (\<exists>s\<in>set (normalizedSearches (searches (stats_forEach E g cwd ps))).
          (case s of (b, p, r) \<Rightarrow> globSearch E loader b p r False) = Inl e)) \<and>
   ((\<exists>s\<in>set (normalizedSearches (searches (stats_forEach E g cwd ps))).
       \<exists>e'. (case s of (b, p, r) \<Rightarrow> globSearch E loader b p r False) = Inl e') \<longrightarrow>
      (\<exists>msg. findFiles E loader ps g cwd False = Inl (SystemError msg))) \<and>
   (normalizedSearches (searches (stats_forEach E g cwd ps)) = pre @ (b1, p1, r1) # post \<and>
    (\<forall>s\<in>set pre. \<exists>v. (case s of (b, p, r) \<Rightarrow> globSearch E loader b p r False) = Inr v) \<and>
    globSearch E loader b1 p1 r1 False = Inl e1 \<longrightarrow>
      findFiles E loader ps g cwd False = Inl e1) \<and>
   (p2 \<noteq> [] \<longrightarrow>
      globSearch E loader b2 p2 r2 False =
        (case hfs_isDirectory E b2 of
           Inl msg \<Rightarrow> Inl (SystemError msg)
         | Inr isDir \<Rightarrow>
             if \<not> isDir then Inr []
             else
               (case first_error_dir
                       (\<lambda>entry. if entry_is_dir entry then None
                                else case getConfig loader (resolve E b2 (path entry)) of
                                       Inl msg \<Rightarrow> Some (SystemError msg)
                                     | Inr c \<Rightarrow> None)
                       (\<lambda>entry. if \<exists>m\<in>set (compile_matchers E b2 p2). match m (path entry) True
                                then case isDirectoryIgnored loader (resolve E b2 (path entry)) of
                                       Inl msg \<Rightarrow> Some (SystemError msg)
                                     | Inr ignored \<Rightarrow> None
                                else None)
                       (\<lambda>entry. (\<exists>m\<in>set (compile_matchers E b2 p2). match m (path entry) True) \<and>
                                isDirectoryIgnored loader (resolve E b2 (path entry)) = Inr False)
                       [] 1 (hfs_list E b2) of
                  Some err \<Rightarrow> Inl err
                | None \<Rightarrow>
                    Inr (map (\<lambda>entry. resolve E b2 (path entry))
                           (filter (\<lambda>entry. \<not> entry_is_dir entry \<and>
                                      (\<exists>m\<in>set (compile_matchers E b2 p2). match m (path entry) False) \<and>
                                      (\<exists>c. getConfig loader (resolve E b2 (path entry)) = Inr (Some c)))
                              (visited_dir
                                 (\<lambda>entry. (\<exists>m\<in>set (compile_matchers E b2 p2). match m (path entry) True) \<and>
                                          isDirectoryIgnored loader (resolve E b2 (path entry)) = Inr False)
                                 [] 1 (hfs_list E b2)))))))"
proof (intro conjI impI)
  let ?ns = "normalizedSearches (searches (stats_forEach E g cwd ps))"
  let ?f = "\<lambda>(b, p, r). globSearch E loader b p r False"
  assume a: "findFiles E loader ps g cwd False = Inl e"
  then have "rejected_loop E False (zip (map ?f ?ns) ?ns) = Some e"
    by (auto simp: findFiles_def globMultiSearch_def Let_def split: sum.splits option.splits)
  from rejected_loop_False_Some [OF this]
  obtain s where s: "s \<in> set ?ns" and fs: "?f s = Inl e" by blast
  obtain b p r where "s = (b, p, r)" by (cases s)
  with fs show "\<exists>msg. e = SystemError msg" by (auto dest: globSearch_False_Inl)
  from s fs show "\<exists>s\<in>set ?ns. ?f s = Inl e" by blast
next
  let ?ns = "normalizedSearches (searches (stats_forEach E g cwd ps))"
  let ?f = "\<lambda>(b, p, r). globSearch E loader b p r False"
  assume "\<exists>s\<in>set ?ns. \<exists>e'. ?f s = Inl e'"
  then have "\<not> (\<forall>s\<in>set ?ns. \<exists>v. ?f s = Inr v)" by fastforce
  then have "rejected_loop E False (zip (map ?f ?ns) ?ns) \<noteq> None"
    using rejected_loop_None_iff [of E False loader ?ns] by blast
  then obtain e where e: "rejected_loop E False (zip (map ?f ?ns) ?ns) = Some e" by blast
  then have ff: "findFiles E loader ps g cwd False = Inl e"
    by (simp add: findFiles_def globMultiSearch_def Let_def)
  from rejected_loop_False_Some [OF e] obtain s where "?f s = Inl e" by blast
  then have "\<exists>msg. e = SystemError msg"
    by (cases s) (auto dest: globSearch_False_Inl)
  then obtain msg where "e = SystemError msg" by blast
  with ff show "\<exists>msg. findFiles E loader ps g cwd False = Inl (SystemError msg)" by blast
next
  let ?ns = "normalizedSearches (searches (stats_forEach E g cwd ps))"
  let ?f = "\<lambda>(b, p, r). globSearch E loader b p r False"
  assume a: "?ns = pre @ (b1, p1, r1) # post \<and>
    (\<forall>s\<in>set pre. \<exists>v. ?f s = Inr v) \<and> globSearch E loader b1 p1 r1 False = Inl e1"
  then have ns: "?ns = pre @ (b1, p1, r1) # post" and pre: "\<forall>s\<in>set pre. \<exists>v. ?f s = Inr v"
    and g: "globSearch E loader b1 p1 r1 False = Inl e1" by blast+
  from globSearch_False_Inl [OF g] obtain msg where msg: "e1 = SystemError msg" by blast
  have "?f (b1, p1, r1) = Inl (SystemError msg)" using g msg by simp
  from rejected_loop_first_failure [of pre ?f, OF pre this]
  have "rejected_loop E False (zip (map ?f ?ns) ?ns) = Some e1" unfolding ns msg .
  then show "findFiles E loader ps g cwd False = Inl e1"
    by (simp add: findFiles_def globMultiSearch_def Let_def)
next
  assume ne: "p2 \<noteq> []"
  show "globSearch E loader b2 p2 r2 False =
        (case hfs_isDirectory E b2 of
           Inl msg \<Rightarrow> Inl (SystemError msg)
         | Inr isDir \<Rightarrow>
             if \<not> isDir then Inr []
             else
               (case first_error_dir
                       (\<lambda>entry. if entry_is_dir entry then None
                                else case getConfig loader (resolve E b2 (path entry)) of
                                       Inl msg \<Rightarrow> Some (SystemError msg)
                                     | Inr c \<Rightarrow> None)
                       (\<lambda>entry. if \<exists>m\<in>set (compile_matchers E b2 p2). match m (path entry) True
                                then case isDirectoryIgnored loader (resolve E b2 (path entry)) of
                                       Inl msg \<Rightarrow> Some (SystemError msg)
                                     | Inr ignored \<Rightarrow> None
                                else None)
                       (\<lambda>entry. (\<exists>m\<in>set (compile_matchers E b2 p2). match m (path entry) True) \<and>
                                isDirectoryIgnored loader (resolve E b2 (path entry)) = Inr False)
                       [] 1 (hfs_list E b2) of
                  Some err \<Rightarrow> Inl err
                | None \<Rightarrow>
                    Inr (map (\<lambda>entry. resolve E b2 (path entry))
                           (filter (\<lambda>entry. \<not> entry_is_dir entry \<and>
                                      (\<exists>m\<in>set (compile_matchers E b2 p2). match m (path entry) False) \<and>
                                      (\<exists>c. getConfig loader (resolve E b2 (path entry)) = Inr (Some c)))
                              (visited_dir
                                 (\<lambda>entry. (\<exists>m\<in>set (compile_matchers E b2 p2). match m (path entry) True) \<and>
                                          isDirectoryIgnored loader (resolve E b2 (path entry)) = Inr False)
                                 [] 1 (hfs_list E b2))))))"
    using globSearch_False_eq [OF ne, of E loader b2 r2]
    unfolding entry_error_def [abs_def] directory_error_def [abs_def]
      directory_entered_def [abs_def] entry_accepted_def [abs_def] .
qed

theorem no_discovery_error_without_flag_witness:
  "findFiles E0 L1 [''*.txt'', ''a''] True ''/r'' False = Inl (SystemError ''EBADCONFIG'') \<and>
   normalizedSearches (searches (stats_forEach E0 True ''/r'' [''*.txt'', ''a''])) =
     [(''/r'', [''/r/*.txt''], [''*.txt''])] @ (''/r/a'', [''/r/a/**''], [''a'']) # [] \<and>
   globSearch E0 L1 ''/r'' [''/r/*.txt''] [''*.txt''] False = Inr [] \<and>
   globSearch E0 L1 ''/r/a'' [''/r/a/**''] [''a''] False = Inl (SystemError ''EBADCONFIG'') \<and>
   (\<exists>s\<in>set (normalizedSearches (searches (stats_forEach E0 True ''/r'' [''*.txt'', ''a'']))).
       (case s of (b, p, r) \<Rightarrow> globSearch E0 L1 b p r False) = Inl (SystemError ''EBADCONFIG'')) \<and>
   first_error_dir (entry_error E0 L1 ''/r/a'')
     (directory_error E0 L1 ''/r/a'' (compile_matchers E0 ''/r/a'' [''/r/a/**'']))
     (directory_entered E0 L1 ''/r/a'' (compile_matchers E0 ''/r/a'' [''/r/a/**'']))
     [] 1 (hfs_list E0 ''/r/a'') = Some (SystemError ''EBADCONFIG'') \<and>
   hfs_isDirectory E3 ''/r'' = Inl ''EPERM'' \<and>
   globSearch E3 L3 ''/r'' [''/r/**/*.js''] [''**/*.js''] False = Inl (SystemError ''EPERM'') \<and>
   findFiles E3 L3 [''**/*.js''] True ''/r'' False = Inl (SystemError ''EPERM'') \<and>
   first_error_dir (entry_error E1 L3 ''/r'')
     (directory_error E1 L3 ''/r'' (compile_matchers E1 ''/r'' [''/r/**/*.js'']))
     (directory_entered E1 L3 ''/r'' (compile_matchers E1 ''/r'' [''/r/**/*.js'']))
     [] 1 (hfs_list E1 ''/r'') = Some (SystemError ''EACCES'') \<and>
   findFiles E1 L3 [''**/*.js''] True ''/r'' False = Inl (SystemError ''EACCES'') \<and>
   first_error_dir (entry_error E0 L2 ''/r'')
     (directory_error E0 L2 ''/r'' (compile_matchers E0 ''/r'' [''/r/**/*.js'']))
     (directory_entered E0 L2 ''/r'' (compile_matchers E0 ''/r'' [''/r/**/*.js'']))
     [] 1 (hfs_list E0 ''/r'') = Some (SystemError ''EBADIGNORE'') \<and>
   findFiles E0 L2 [''**/*.js''] True ''/r'' False = Inl (SystemError ''EBADIGNORE'') \<and>
   findFiles E0 L0 [''**/*.py'', ''nope''] True ''/r'' False = Inr []"
proof -
  have n1: "normalizedSearches (searches (stats_forEach E0 True ''/r'' [''*.txt'', ''a''])) =
     [(''/r'', [''/r/*.txt''], [''*.txt''])] @ (''/r/a'', [''/r/a/**''], [''a'']) # []"
    by code_simp
  have g1: "globSearch E0 L1 ''/r'' [''/r/*.txt''] [''*.txt''] False = Inr []"
    by code_simp
  have g2: "globSearch E0 L1 ''/r/a'' [''/r/a/**''] [''a''] False = Inl (SystemError ''EBADCONFIG'')"
    by code_simp
  have pre1: "\<forall>s\<in>set [(''/r'', [''/r/*.txt''], [''*.txt''])].
      \<exists>v. (case s of (b, p, r) \<Rightarrow> globSearch E0 L1 b p r False) = Inr v"
    using g1 by simp
  have f1: "first_error_dir (entry_error E0 L1 ''/r/a'')
     (directory_error E0 L1 ''/r/a'' (compile_matchers E0 ''/r/a'' [''/r/a/**'']))
     (directory_entered E0 L1 ''/r/a'' (compile_matchers E0 ''/r/a'' [''/r/a/**'']))
     [] 1 (hfs_list E0 ''/r/a'') = Some (SystemError ''EBADCONFIG'')"
    by code_simp
  note tA = no_discovery_error_without_flag [where E = E0 and loader = L1 and ps = "[''*.txt'', ''a'']"
      and g = True and cwd = "''/r''" and e = "SystemError ''EBADCONFIG''"
      and pre = "[(''/r'', [''/r/*.txt''], [''*.txt''])]" and ?b1.0 = "''/r/a''"
      and ?p1.0 = "[''/r/a/**'']" and ?r1.0 = "[''a'']" and post = "[]"
      and ?e1.0 = "SystemError ''EBADCONFIG''"
      and ?p2.0 = "[''/r/a/**'']" and ?b2.0 = "''/r/a''" and ?r2.0 = "[''a'']"]
  from tA n1 pre1 g2
  have a1: "findFiles E0 L1 [''*.txt'', ''a''] True ''/r'' False = Inl (SystemError ''EBADCONFIG'')"
    by blast
  from tA a1
  have a2: "\<exists>s\<in>set (normalizedSearches (searches (stats_forEach E0 True ''/r'' [''*.txt'', ''a'']))).
       (case s of (b, p, r) \<Rightarrow> globSearch E0 L1 b p r False) = Inl (SystemError ''EBADCONFIG'')"
    by blast
  have d3: "hfs_isDirectory E3 ''/r'' = Inl ''EPERM''"
    by code_simp
  have n3: "normalizedSearches (searches (stats_forEach E3 True ''/r'' [''**/*.js''])) =
     [] @ (''/r'', [''/r/**/*.js''], [''**/*.js'']) # []"
    by code_simp
  note tB = no_discovery_error_without_flag [where E = E3 and loader = L3 and ps = "[''**/*.js'']"
      and g = True and cwd = "''/r''"
      and pre = "[]" and ?b1.0 = "''/r''"
      and ?p1.0 = "[''/r/**/*.js'']" and ?r1.0 = "[''**/*.js'']" and post = "[]"
      and ?e1.0 = "SystemError ''EPERM''"
      and ?p2.0 = "[''/r/**/*.js'']" and ?b2.0 = "''/r''" and ?r2.0 = "[''**/*.js'']"]
  have ne: "[''/r/**/*.js''] \<noteq> []" by simp
  from tB ne
  have "globSearch E3 L3 ''/r'' [''/r/**/*.js''] [''**/*.js''] False =
        (case hfs_isDirectory E3 ''/r'' of
           Inl msg \<Rightarrow> Inl (SystemError msg)
         | Inr isDir \<Rightarrow>
             if \<not> isDir then Inr []
             else
               (case first_error_dir
                       (\<lambda>entry. if entry_is_dir entry then None
                                else case getConfig L3 (resolve E3 ''/r'' (path entry)) of
                                       Inl msg \<Rightarrow> Some (SystemError msg)
                                     | Inr c \<Rightarrow> None)
                       (\<lambda>entry. if \<exists>m\<in>set (compile_matchers E3 ''/r'' [''/r/**/*.js'']). match m (path entry) True
                                then case isDirectoryIgnored L3 (resolve E3 ''/r'' (path entry)) of
                                       Inl msg \<Rightarrow> Some (SystemError msg)
                                     | Inr ignored \<Rightarrow> None
                                else None)
                       (\<lambda>entry. (\<exists>m\<in>set (compile_matchers E3 ''/r'' [''/r/**/*.js'']). match m (path entry) True) \<and>
                                isDirectoryIgnored L3 (resolve E3 ''/r'' (path entry)) = Inr False)
                       [] 1 (hfs_list E3 ''/r'') of
                  Some err \<Rightarrow> Inl err
                | None \<Rightarrow>
                    Inr (map (\<lambda>entry. resolve E3 ''/r'' (path entry))
                           (filter (\<lambda>entry. \<not> entry_is_dir entry \<and>
                                      (\<exists>m\<in>set (compile_matchers E3 ''/r'' [''/r/**/*.js'']). match m (path entry) False) \<and>
                                      (\<exists>c. getConfig L3 (resolve E3 ''/r'' (path entry)) = Inr (Some c)))
                              (visited_dir
                                 (\<lambda>entry. (\<exists>m\<in>set (compile_matchers E3 ''/r'' [''/r/**/*.js'']). match m (path entry) True) \<and>
                                          isDirectoryIgnored L3 (resolve E3 ''/r'' (path entry)) = Inr False)
                                 [] 1 (hfs_list E3 ''/r''))))))"
    by blast
  then have g3: "globSearch E3 L3 ''/r'' [''/r/**/*.js''] [''**/*.js''] False = Inl (SystemError ''EPERM'')"
    unfolding d3 by simp
  have pre0: "\<forall>s\<in>set ([] :: search list). \<exists>v. (case s of (b, p, r) \<Rightarrow> globSearch E3 L3 b p r False) = Inr v"
    by simp
  from tB n3 pre0 g3
  have a3: "findFiles E3 L3 [''**/*.js''] True ''/r'' False = Inl (SystemError ''EPERM'')"
    by blast
  have f4: "first_error_dir (entry_error E1 L3 ''/r'')
     (directory_error E1 L3 ''/r'' (compile_matchers E1 ''/r'' [''/r/**/*.js'']))
     (directory_entered E1 L3 ''/r'' (compile_matchers E1 ''/r'' [''/r/**/*.js'']))
     [] 1 (hfs_list E1 ''/r'') = Some (SystemError ''EACCES'')"
    by code_simp
  have a4: "findFiles E1 L3 [''**/*.js''] True ''/r'' False = Inl (SystemError ''EACCES'')"
    by code_simp
  have f5: "first_error_dir (entry_error E0 L2 ''/r'')
     (directory_error E0 L2 ''/r'' (compile_matchers E0 ''/r'' [''/r/**/*.js'']))
     (directory_entered E0 L2 ''/r'' (compile_matchers E0 ''/r'' [''/r/**/*.js'']))
     [] 1 (hfs_list E0 ''/r'') = Some (SystemError ''EBADIGNORE'')"
    by code_simp
  have a5: "findFiles E0 L2 [''**/*.js''] True ''/r'' False = Inl (SystemError ''EBADIGNORE'')"
    by code_simp
  have a6: "findFiles E0 L0 [''**/*.py'', ''nope''] True ''/r'' False = Inr []"
    by code_simp
  from n1 g1 g2 a1 a2 f1 d3 g3 a3 f4 a4 f5 a5 a6 show ?thesis by blast
qed

subsection \<open>The second walk: \<open>globMatch\<close>\<close>

lemma filter_quietD: "filter_quiet f \<Longrightarrow> f e s = Inr (False, s') \<Longrightarrow> s' = s"
  unfolding filter_quiet_def by blast

lemma filter_constD: "filter_const f \<Longrightarrow> f e s = Inr (b, s') \<Longrightarrow> s' = s"
  unfolding filter_const_def by blast

lemma walk_list_walk_dir_quiet:
  shows "filter_const df \<Longrightarrow> filter_quiet ef \<Longrightarrow> fst (walk_list df ef pp d es st) = [] \<Longrightarrow>
           \<forall>s'. snd (walk_list df ef pp d es st) = Inr s' \<longrightarrow> s' = st"
    and "filter_const df \<Longrightarrow> filter_quiet ef \<Longrightarrow> fst (walk_dir df ef pp d rd st) = [] \<Longrightarrow>
           \<forall>s'. snd (walk_dir df ef pp d rd st) = Inr s' \<longrightarrow> s' = st"
proof (induction df ef pp d es st and df ef pp d rd st rule: walk_list_walk_dir.induct)
  case (1 directoryFilter entryFilter parentPath d st)
  then show ?case by simp
next
  case (2 df ef pp d n isDir rd rest st)
  define we where "we = walkEntry_of pp d n isDir"
  note okd = "2.prems"(1) and oke = "2.prems"(2)
  note nil = "2.prems"(3)
  show ?case
  proof (intro allI impI)
  fix s' assume fin: "snd (walk_list df ef pp d (FsEntry n isDir rd # rest) st) = Inr s'"
  show "s' = st"
  proof (cases "ef we st")
    case (Inl e)
    then show ?thesis using fin by (simp add: we_def walk_list_ef_fails)
  next
    case (Inr r)
    obtain emit st1 where r: "r = (emit, st1)" by (cases r)
    have eq: "ef we st = Inr (emit, st1)" using Inr r by simp
    show ?thesis
    proof (cases isDir)
      case False
      from nil eq False have ne: "\<not> emit" and nil': "fst (walk_list df ef pp d rest st1) = []"
        by (auto simp: we_def walk_list_file split: if_splits)
      from fin eq False have fin': "snd (walk_list df ef pp d rest st1) = Inr s'"
        by (simp add: we_def walk_list_file)
      have "st1 = st" using filter_quietD [OF oke] eq ne by simp
      moreover have "s' = st1"
        using "2.IH"(4) [OF we_def eq refl refl False okd oke nil'] fin' by blast
      ultimately show ?thesis by simp
    next
      case True
      show ?thesis
      proof (cases "df we st1")
        case (Inl e)
        then show ?thesis using fin eq True by (simp add: we_def walk_list_df_fails)
      next
        case (Inr q)
        obtain go st2 where q: "q = (go, st2)" by (cases q)
        have eq2: "df we st1 = Inr (go, st2)" using Inr q by simp
        have s2: "st2 = st1" using filter_constD [OF okd eq2] .
        show ?thesis
        proof (cases go)
          case False
          from nil eq eq2 True False have ne: "\<not> emit" and nil': "fst (walk_list df ef pp d rest st2) = []"
            by (auto simp: we_def walk_list_pruned split: if_splits)
          from fin eq eq2 True False have fin': "snd (walk_list df ef pp d rest st2) = Inr s'"
            by (simp add: we_def walk_list_pruned)
          have "st1 = st" using filter_quietD [OF oke] eq ne by simp
          moreover have "s' = st2"
            using "2.IH"(1) [OF we_def eq refl refl True eq2 refl _ okd oke nil'] fin' False by blast
          ultimately show ?thesis using s2 by simp
        next
          case go: True
          show ?thesis
          proof (cases "walk_dir df ef (path we) (d + 1) rd st2")
            case (Pair ws r3)
            show ?thesis
            proof (cases r3)
              case (Inl e)
              then show ?thesis using fin eq eq2 True go Pair
                by (simp add: we_def walk_list_descend_fails)
            next
              case (Inr st3)
              have sd: "snd (walk_dir df ef (path we) (d + 1) rd st2) = Inr st3"
                using Pair Inr by simp
              from nil eq eq2 True go sd have ne: "\<not> emit"
                and nild: "fst (walk_dir df ef (path we) (d + 1) rd st2) = []"
                and nil': "fst (walk_list df ef pp d rest st3) = []"
                by (auto simp: we_def walk_list_descend split: if_splits)
              from fin eq eq2 True go sd have fin': "snd (walk_list df ef pp d rest st3) = Inr s'"
                by (simp add: we_def walk_list_descend)
              have "st1 = st" using filter_quietD [OF oke] eq ne by simp
              moreover have "st3 = st2"
                using "2.IH"(2) [OF we_def eq refl refl True eq2 refl _ okd oke nild] sd go by blast
              moreover have "s' = st3"
                using "2.IH"(3) [OF we_def eq refl refl True eq2 refl _ Pair [symmetric] Inr okd oke nil'] fin' go by blast
              ultimately show ?thesis using s2 by simp
            qed
          qed
        qed
      qed
    qed
  qed
  qed
next
  case (3 directoryFilter entryFilter parentPath d e st)
  then show ?case by simp
next
  case (4 directoryFilter entryFilter parentPath d es st)
  then show ?case by simp
qed

lemma globMatch_directoryFilter_const: "filter_const (globMatch_directoryFilter m)"
  by (simp add: filter_const_def globMatch_directoryFilter_def)

lemma globMatch_entryFilter_quiet: "filter_quiet (globMatch_entryFilter m)"
  by (auto simp: filter_quiet_def globMatch_entryFilter_def split: if_splits)

lemma globMatch_walk_ok:
  "walk_ok (\<lambda>s. True)
     (\<lambda>e s. s \<and> \<not> entry_is_dir e \<and>
            match (Minimatch E (normalizeToPosix (relative E basePath p))) (path e) False)
     (\<lambda>err. \<exists>msg. err = SystemError msg)
     (globMatch_walk E basePath p)"
  unfolding globMatch_walk_def Let_def
  by (rule walk_ok) (auto simp: filter_ok_def globMatch_directoryFilter_def globMatch_entryFilter_def)

lemma globMatch_walk_quiet:
  "fst (globMatch_walk E basePath p) = [] \<Longrightarrow> snd (globMatch_walk E basePath p) = Inr s' \<Longrightarrow> \<not> s'"
  unfolding globMatch_walk_def Let_def walk_def
  using walk_list_walk_dir_quiet(2) [OF globMatch_directoryFilter_const globMatch_entryFilter_quiet]
  by blast

lemma globMatch_cases:
  "globMatch E basePath (Some p) =
     (case hfs_isDirectory E basePath of
        Inl e \<Rightarrow> Inl (SystemError e)
      | Inr isDir \<Rightarrow>
          if \<not> isDir then Inr False
          else if fst (globMatch_walk E basePath p) \<noteq> [] then Inr True
          else (case snd (globMatch_walk E basePath p) of Inl e \<Rightarrow> Inl e | Inr s \<Rightarrow> Inr False))"
proof (cases "hfs_isDirectory E basePath")
  case (Inl e)
  then show ?thesis by (simp add: globMatch_def)
next
  case (Inr isDir)
  show ?thesis
  proof (cases "fst (globMatch_walk E basePath p)")
    case Nil
    then show ?thesis using Inr globMatch_walk_quiet [OF Nil]
      by (auto simp: globMatch_def next_once_def split: sum.splits)
  next
    case (Cons y ys)
    then have "y \<in> set (fst (globMatch_walk E basePath p))" by simp
    with globMatch_walk_ok [of E basePath p] have "snd y" unfolding walk_ok_def by blast
    then show ?thesis using Inr Cons
      by (cases y) (auto simp: globMatch_def next_once_def)
  qed
qed

subsection \<open>The unmatched-pattern reconciler\<close>

lemma indexOf_mem:
  "x \<in> set xs \<Longrightarrow> \<exists>i. indexOf xs x = int i \<and> i < length xs \<and> xs ! i = x \<and> (\<forall>j<i. xs ! j \<noteq> x)"
proof (induction xs)
  case Nil
  then show ?case by simp
next
  case (Cons y ys)
  show ?case
  proof (cases "y = x")
    case True
    then show ?thesis by (intro exI [of _ 0]) simp
  next
    case False
    with Cons obtain i where i: "indexOf ys x = int i" "i < length ys" "ys ! i = x" "\<forall>j<i. ys ! j \<noteq> x"
      by auto
    have "\<forall>j<Suc i. (y # ys) ! j \<noteq> x"
      using False i(4) by (auto simp: less_Suc_eq_0_disj)
    then show ?thesis using False i by (intro exI [of _ "Suc i"]) (simp add: Let_def)
  qed
qed

lemma indexOf_map_Some: "indexOf (map Some xs) (Some x) = indexOf xs x"
  by (induction xs) (simp_all add: Let_def)

lemma Map_get_Some_mem: "Map_get m k = Some v \<Longrightarrow> (k, v) \<in> set m"
  by (induction m) (auto split: if_splits)

lemma push_search_lengths:
  assumes "\<forall>(k, a, b)\<in>set m. length a = length b"
  shows "\<forall>(k, a, b)\<in>set (push_search key p raw m). length a = length b"
proof -
  define m1 where "m1 = (if \<not> Map_has m key then Map_set key ([], []) m else m)"
  have m1: "\<forall>(k, a, b)\<in>set m1. length a = length b"
    using assms set_Map_set [of key "([], [])" m] unfolding m1_def by auto
  show ?thesis
  proof (cases "Map_get m1 key")
    case None
    then show ?thesis using m1 by (simp add: push_search_def m1_def [symmetric])
  next
    case (Some v)
    obtain a b where v: "v = (a, b)" by (cases v)
    from Map_get_Some_mem [OF Some] m1 have "length a = length b" by (auto simp: v)
    then have "\<forall>(k, a, b)\<in>set (Map_set key (a @ [p], b @ [raw]) m1). length a = length b"
      using m1 set_Map_set [of key "(a @ [p], b @ [raw])" m1] by auto
    then show ?thesis using Some by (simp add: push_search_def m1_def [symmetric] v)
  qed
qed

lemma forEach_body_lengths:
  assumes "\<forall>(k, a, b)\<in>set (searches st). length a = length b"
  shows "\<forall>(k, a, b)\<in>set (searches (forEach_body E g cwd x st)). length a = length b"
proof -
  obtain sr fp p where x: "x = (sr, fp, p)" by (cases x)
  show ?thesis
    unfolding x forEach_body_cases
    using assms push_search_lengths [OF assms]
    by (auto split: option.splits file_kind.splits)
qed

lemma fold_forEach_body_lengths:
  "\<forall>(k, a, b)\<in>set (searches st). length a = length b \<Longrightarrow>
   \<forall>(k, a, b)\<in>set (searches (fold (forEach_body E g cwd) xs st)). length a = length b"
proof (induction xs arbitrary: st)
  case Nil
  then show ?case by simp
next
  case (Cons x xs)
  show ?case using Cons.IH [OF forEach_body_lengths [OF Cons.prems]] by simp
qed

lemma searches_lengths:
  "(k, a, b) \<in> set (searches (stats_forEach E g cwd ps)) \<Longrightarrow> length a = length b"
  using fold_forEach_body_lengths [of "\<lparr>results = [], missingPatterns = [], searches = [(cwd, ([], []))]\<rparr>"
      E g cwd "zip (map (stat E) (map (resolve E cwd) ps)) (zip (map (resolve E cwd) ps) ps)"]
  unfolding stats_forEach_def Let_def by auto

lemma throwErrorForUnmatchedPatterns_first:
  assumes "p \<in> set ps" and "length rs = length ps"
  shows "\<exists>i. i < length ps \<and> ps ! i = p \<and> (\<forall>j<i. ps ! j \<noteq> p) \<and>
           throwErrorForUnmatchedPatterns E basePath ps rs (Some p # rest) =
             (case globMatch E basePath (Some p) of
                Inl e \<Rightarrow> e
              | Inr patternHasMatch \<Rightarrow>
                  if patternHasMatch then AllFilesIgnoredError (Some (rs ! i))
                  else NoFilesFoundError (Some (rs ! i)) True)"
proof -
  from indexOf_mem [OF assms(1)] obtain i where
    i: "indexOf ps p = int i" "i < length ps" "ps ! i = p" "\<forall>j<i. ps ! j \<noteq> p" by blast
  have raw: "js_get rs (indexOf (map Some ps) (Some p)) = Some (rs ! i)"
    using i assms(2) by (simp add: indexOf_map_Some js_get_def)
  have first: "Option.bind (js_get (Some p # rest) 0) id = Some p"
    by (simp add: js_get_def)
  have "throwErrorForUnmatchedPatterns E basePath ps rs (Some p # rest) =
             (case globMatch E basePath (Some p) of
                Inl e \<Rightarrow> e
              | Inr patternHasMatch \<Rightarrow>
                  if patternHasMatch then AllFilesIgnoredError (Some (rs ! i))
                  else NoFilesFoundError (Some (rs ! i)) True)"
    unfolding throwErrorForUnmatchedPatterns_def Let_def first raw ..
  with i show ?thesis by blast
qed

lemma globMatch_True_iff:
  "globMatch E basePath (Some p) = Inr True \<longleftrightarrow>
     hfs_isDirectory E basePath = Inr True \<and>
     (\<exists>y\<in>set (fst (globMatch_walk E basePath p)). \<not> entry_is_dir (fst y) \<and>
         match (Minimatch E (normalizeToPosix (relative E basePath p))) (path (fst y)) False)"
proof -
  have all: "\<forall>y\<in>set (fst (globMatch_walk E basePath p)). \<not> entry_is_dir (fst y) \<and>
         match (Minimatch E (normalizeToPosix (relative E basePath p))) (path (fst y)) False"
    using globMatch_walk_ok [of E basePath p] unfolding walk_ok_def by blast
  have ne: "fst (globMatch_walk E basePath p) \<noteq> [] \<longleftrightarrow>
        (\<exists>y\<in>set (fst (globMatch_walk E basePath p)). \<not> entry_is_dir (fst y) \<and>
         match (Minimatch E (normalizeToPosix (relative E basePath p))) (path (fst y)) False)"
    using all by (cases "fst (globMatch_walk E basePath p)") auto
  show ?thesis
    unfolding globMatch_cases ne [symmetric]
    by (auto split: sum.splits)
qed

text \<open>
  C3, as stated, fails: the walk of the only group ends with its pattern unmatched (the
  loader ignores the one directory, so that it is never read), the flag is set, and
  the error of \<open>findFiles\<close> is neither of the two: the second walk, which ignores
  nothing, fails on the directory that cannot be read, and that error comes out.
  In the second half two groups end with a pattern unmatched: the walk of \<open>/r/a\<close>
  leaves \<open>a/*.txt\<close> unmatched and a second walk for it finds \<open>a/y.txt\<close>, yet the
  error raised is the one of the group \<open>/r\<close>, which was launched first.
\<close>

theorem second_walk_may_fail_counterexample:
  "normalizedSearches (searches (stats_forEach E1 True ''/r'' [''**/*.py''])) =
     [(''/r'', [''/r/**/*.py''], [''**/*.py''])] \<and>
   globSearch E1 L0 ''/r'' [''/r/**/*.py''] [''**/*.py''] True =
     Inl (UnmatchedSearchPatternsError ''/r'' [Some ''/r/**/*.py''] [''/r/**/*.py''] [''**/*.py'']) \<and>
   globMatch E1 ''/r'' (Some ''/r/**/*.py'') = Inl (SystemError ''EACCES'') \<and>
   findFiles E1 L0 [''**/*.py''] True ''/r'' True = Inl (SystemError ''EACCES'') \<and>
   normalizedSearches (searches (stats_forEach E0 True ''/r'' [''a/*.txt'', ''**/*.py''])) =
     [(''/r'', [''/r/**/*.py''], [''**/*.py'']), (''/r/a'', [''/r/a/*.txt''], [''a/*.txt''])] \<and>
   globSearch E0 L0 ''/r/a'' [''/r/a/*.txt''] [''a/*.txt''] True =
     Inl (UnmatchedSearchPatternsError ''/r/a'' [Some ''/r/a/*.txt''] [''/r/a/*.txt''] [''a/*.txt'']) \<and>
   globMatch E0 ''/r/a'' (Some ''/r/a/*.txt'') = Inr True \<and>
   findFiles E0 L0 [''a/*.txt'', ''**/*.py''] True ''/r'' True =
     Inl (NoFilesFoundError (Some ''**/*.py'') True)"
  by code_simp

text \<open>
  C3, amended. Let the first group, in launch order, whose search does not succeed
  end its walk with patterns unmatched (no pattern being missing, and the base path
  not being the empty string). Then \<open>findFiles\<close> raises exactly one error, decided by
  \<open>globMatch\<close> on the first unmatched pattern \<open>p\<close> of that group alone:
  \<open>AllFilesIgnoredError\<close> if the second walk finds a match, \<open>NoFilesFoundError\<close> with
  the flag true if it ends without one, and the error of the second walk itself if it
  fails; the walk finds a match exactly when it comes upon an entry that is not a
  directory and that the matcher of \<open>p\<close> matches. The pattern reported is the raw pattern at the first position of \<open>p\<close> in the
  group. The other unmatched patterns and the later groups play no part.
\<close>

theorem first_unmatched_pattern_decides:
  assumes ns: "normalizedSearches (searches (stats_forEach E g cwd patterns)) = pre @ (basePath, ps, rs) # post"
      and pre: "\<forall>s\<in>set pre. \<exists>v. (case s of (b, p, r) \<Rightarrow> globSearch E loader b p r True) = Inr v"
      and gs: "globSearch E loader basePath ps rs True = Inl (UnmatchedSearchPatternsError b u ps' rs')"
      and nomissing: "missingPatterns (stats_forEach E g cwd patterns) = []"
      and base: "basePath \<noteq> []"
  shows "\<exists>p i. u \<noteq> [] \<and> hd u = Some p \<and> i < length ps \<and> ps ! i = p \<and> (\<forall>j<i. ps ! j \<noteq> p) \<and>
           i < length rs \<and>
           findFiles E loader patterns g cwd True =
             Inl (case globMatch E basePath (Some p) of
                    Inl e \<Rightarrow> e
                  | Inr patternHasMatch \<Rightarrow>
                      if patternHasMatch then AllFilesIgnoredError (Some (rs ! i))
                      else NoFilesFoundError (Some (rs ! i)) True) \<and>
           (globMatch E basePath (Some p) = Inr True \<longleftrightarrow>
              hfs_isDirectory E basePath = Inr True \<and>
              (\<exists>y\<in>set (fst (globMatch_walk E basePath p)). \<not> entry_is_dir (fst y) \<and>
                  match (Minimatch E (normalizeToPosix (relative E basePath p))) (path (fst y)) False))"
proof -
  let ?f = "\<lambda>(b, p, r). globSearch E loader b p r True"
  let ?ns = "normalizedSearches (searches (stats_forEach E g cwd patterns))"
  from globSearch_Inl [OF gs]
  have u: "u \<noteq> []" "set u \<subseteq> Some ` set ps"
    and same: "b = basePath" "ps' = ps" "rs' = rs" by auto
  then obtain p rest where up: "u = Some p # rest" and p: "p \<in> set ps"
    by (cases u) auto
  have "(basePath, ps, rs) \<in> set ?ns" unfolding ns by simp
  then have "(basePath, ps, rs) \<in> set (searches (stats_forEach E g cwd patterns))"
    unfolding normalizedSearches_def by simp
  then have len: "length rs = length ps" using searches_lengths by fastforce
  from throwErrorForUnmatchedPatterns_first [OF p len, of E basePath rest]
  obtain i where i: "i < length ps" "ps ! i = p" "\<forall>j<i. ps ! j \<noteq> p"
    and thr: "throwErrorForUnmatchedPatterns E basePath ps rs u =
             (case globMatch E basePath (Some p) of
                Inl e \<Rightarrow> e
              | Inr patternHasMatch \<Rightarrow>
                  if patternHasMatch then AllFilesIgnoredError (Some (rs ! i))
                  else NoFilesFoundError (Some (rs ! i)) True)"
    unfolding up by blast
  have "rejected_loop E True (zip (map ?f ?ns) ?ns) =
        rejected_loop E True (zip (map ?f ((basePath, ps, rs) # post)) ((basePath, ps, rs) # post))"
    unfolding ns by (rule rejected_loop_prefix [OF pre])
  also have "\<dots> = Some (throwErrorForUnmatchedPatterns E basePath ps rs u)"
    using gs base by (simp add: same)
  finally have "globMultiSearch E loader (searches (stats_forEach E g cwd patterns)) True =
        Inl (throwErrorForUnmatchedPatterns E basePath ps rs u)"
    by (simp add: globMultiSearch_def Let_def)
  then have "findFiles E loader patterns g cwd True =
        Inl (throwErrorForUnmatchedPatterns E basePath ps rs u)"
    by (simp add: findFiles_def Let_def nomissing)
  moreover have "globMatch E basePath (Some p) = Inr True \<longleftrightarrow>
              hfs_isDirectory E basePath = Inr True \<and>
              (\<exists>y\<in>set (fst (globMatch_walk E basePath p)). \<not> entry_is_dir (fst y) \<and>
                  match (Minimatch E (normalizeToPosix (relative E basePath p))) (path (fst y)) False)"
    by (rule globMatch_True_iff)
  ultimately show ?thesis using thr i len up by auto
qed


theorem first_unmatched_pattern_decides_witness:
  "normalizedSearches (searches (stats_forEach E0 True ''/r'' [''**/*.js'', ''a/*.txt'', ''a/*.py'', ''b/*.py''])) =
     [(''/r'', [''/r/**/*.js''], [''**/*.js''])] @
     (''/r/a'', [''/r/a/*.txt'', ''/r/a/*.py''], [''a/*.txt'', ''a/*.py'']) #
     [(''/r/b'', [''/r/b/*.py''], [''b/*.py''])] \<and>
   globSearch E0 L0 ''/r'' [''/r/**/*.js''] [''**/*.js''] True =
     Inr [''/r/a/x.js'', ''/r/c/d/w.js'', ''/r/c/d/.hidden.js''] \<and>
   globSearch E0 L0 ''/r/a'' [''/r/a/*.txt'', ''/r/a/*.py''] [''a/*.txt'', ''a/*.py''] True =
     Inl (UnmatchedSearchPatternsError ''/r/a'' [Some ''/r/a/*.txt'', Some ''/r/a/*.py'']
            [''/r/a/*.txt'', ''/r/a/*.py''] [''a/*.txt'', ''a/*.py'']) \<and>
   missingPatterns (stats_forEach E0 True ''/r'' [''**/*.js'', ''a/*.txt'', ''a/*.py'', ''b/*.py'']) = [] \<and>
   globMatch E0 ''/r/a'' (Some ''/r/a/*.txt'') = Inr True \<and>
   findFiles E0 L0 [''**/*.js'', ''a/*.txt'', ''a/*.py'', ''b/*.py''] True ''/r'' True =
     Inl (AllFilesIgnoredError (Some ''a/*.txt'')) \<and>
   (\<exists>i < length [''/r/a/*.txt'', ''/r/a/*.py'']. [''/r/a/*.txt'', ''/r/a/*.py''] ! i = ''/r/a/*.txt'' \<and>
      findFiles E0 L0 [''**/*.js'', ''a/*.txt'', ''a/*.py'', ''b/*.py''] True ''/r'' True =
        Inl (AllFilesIgnoredError (Some ([''a/*.txt'', ''a/*.py''] ! i))))"
proof -
  let ?pats = "[''**/*.js'', ''a/*.txt'', ''a/*.py'', ''b/*.py'']"
  have h1: "normalizedSearches (searches (stats_forEach E0 True ''/r'' ?pats)) =
     [(''/r'', [''/r/**/*.js''], [''**/*.js''])] @
     (''/r/a'', [''/r/a/*.txt'', ''/r/a/*.py''], [''a/*.txt'', ''a/*.py'']) #
     [(''/r/b'', [''/r/b/*.py''], [''b/*.py''])]"
    by code_simp
  have h2': "globSearch E0 L0 ''/r'' [''/r/**/*.js''] [''**/*.js''] True =
            Inr [''/r/a/x.js'', ''/r/c/d/w.js'', ''/r/c/d/.hidden.js'']"
    by code_simp
  have h2: "\<forall>s\<in>set [(''/r'', [''/r/**/*.js''], [''**/*.js''])].
       \<exists>v. (case s of (b, p, r) \<Rightarrow> globSearch E0 L0 b p r True) = Inr v"
    using h2' by simp
  have h3: "globSearch E0 L0 ''/r/a'' [''/r/a/*.txt'', ''/r/a/*.py''] [''a/*.txt'', ''a/*.py''] True =
     Inl (UnmatchedSearchPatternsError ''/r/a'' [Some ''/r/a/*.txt'', Some ''/r/a/*.py'']
            [''/r/a/*.txt'', ''/r/a/*.py''] [''a/*.txt'', ''a/*.py''])"
    by code_simp
  have h4: "missingPatterns (stats_forEach E0 True ''/r'' ?pats) = []"
    by code_simp
  have h5: "''/r/a'' \<noteq> []" by simp
  have h6: "globMatch E0 ''/r/a'' (Some ''/r/a/*.txt'') = Inr True"
    by code_simp
  have h7: "findFiles E0 L0 ?pats True ''/r'' True = Inl (AllFilesIgnoredError (Some ''a/*.txt''))"
    by code_simp
  from first_unmatched_pattern_decides [OF h1 h2 h3 h4 h5]
  obtain p i where "hd [Some ''/r/a/*.txt'', Some ''/r/a/*.py''] = Some p"
    and i: "i < length [''/r/a/*.txt'', ''/r/a/*.py'']" "[''/r/a/*.txt'', ''/r/a/*.py''] ! i = p"
    and ff: "findFiles E0 L0 ?pats True ''/r'' True =
             Inl (case globMatch E0 ''/r/a'' (Some p) of
                    Inl e \<Rightarrow> e
                  | Inr patternHasMatch \<Rightarrow>
                      if patternHasMatch then AllFilesIgnoredError (Some ([''a/*.txt'', ''a/*.py''] ! i))
                      else NoFilesFoundError (Some ([''a/*.txt'', ''a/*.py''] ! i)) True)"
    by blast
  then have p: "p = ''/r/a/*.txt''" by simp
  have c: "\<exists>i < length [''/r/a/*.txt'', ''/r/a/*.py'']. [''/r/a/*.txt'', ''/r/a/*.py''] ! i = ''/r/a/*.txt'' \<and>
      findFiles E0 L0 ?pats True ''/r'' True =
        Inl (AllFilesIgnoredError (Some ([''a/*.txt'', ''a/*.py''] ! i)))"
    using i ff unfolding p h6 by auto
  from h1 h2' h3 h4 h6 h7 c show ?thesis by blast
qed

lemma normalizedSearches_single:
  "normalizedSearches (push_search key p raw [(cwd, ([], []))]) = [(key, [p], [raw])]"
  by (auto simp: push_search_def Map_has_def normalizedSearches_def)

lemma globSearch_not_directory_True:
  assumes "ps \<noteq> []" and "hfs_isDirectory E basePath = Inr False"
  shows "\<exists>u. u \<noteq> [] \<and> set u \<subseteq> Some ` set ps \<and>
           globSearch E loader basePath ps rs True = Inl (UnmatchedSearchPatternsError basePath u ps rs)"
proof -
  have "\<exists>e. globSearch E loader basePath ps rs True = Inl e"
    unfolding globSearch_not_directory [OF assms]
    using relativeToPatterns_keys_not_Nil [OF assms(1)] by simp
  then obtain e where e: "globSearch E loader basePath ps rs True = Inl e" by blast
  have "\<not> (\<exists>msg. e = SystemError msg)"
    using e unfolding globSearch_not_directory [OF assms] by (auto split: if_splits)
  with globSearch_Inl [OF e] e show ?thesis by auto
qed

lemma globMatch_not_directory:
  "hfs_isDirectory E basePath = Inr False \<Longrightarrow> globMatch E basePath (Some p) = Inr False"
  by (simp add: globMatch_def)

text \<open>
  C10. Let \<open>hfs.isDirectory\<close> answer false for the base path of a group (it does not
  exist, or it is not a directory). Then, whatever reading a directory would give,
  \<open>globSearch\<close> returns the empty list when \<open>errorOnUnmatchedPattern\<close> is false and
  raises the internal error with a non-empty list of unmatched patterns when it is
  true (for a group that has patterns), and \<open>globMatch\<close> returns false. So a glob
  pattern, given alone, whose glob parent is such a path makes \<open>findFiles\<close> raise
  \<open>NoFilesFoundError\<close> with the flag true.
\<close>

theorem base_path_not_a_directory:
  assumes "hfs_isDirectory E basePath = Inr False"
  shows "(ps \<noteq> [] \<longrightarrow>
            globSearch (E\<lparr>hfs_list := ls\<rparr>) loader basePath ps rs False = Inr [] \<and>
            (\<exists>u. u \<noteq> [] \<and> set u \<subseteq> Some ` set ps \<and>
               globSearch (E\<lparr>hfs_list := ls\<rparr>) loader basePath ps rs True =
                 Inl (UnmatchedSearchPatternsError basePath u ps rs))) \<and>
         globMatch (E\<lparr>hfs_list := ls\<rparr>) basePath (Some p) = Inr False \<and>
         (stat E (resolve E cwd q) = None \<and> isGlobPattern E (normalizeToPosix q) \<and>
          basePath = resolve E cwd (globParent E (normalizeToPosix q)) \<and> basePath \<noteq> [] \<longrightarrow>
            findFiles (E\<lparr>hfs_list := ls\<rparr>) loader [q] True cwd True =
              Inl (NoFilesFoundError (Some (normalizeToPosix q)) True))"
proof (intro conjI impI)
  let ?E = "E\<lparr>hfs_list := ls\<rparr>"
  have nd: "hfs_isDirectory ?E basePath = Inr False" using assms by simp
  {
    assume ne: "ps \<noteq> []"
    show "globSearch ?E loader basePath ps rs False = Inr []"
      unfolding globSearch_not_directory [OF ne nd] by simp
    show "\<exists>u. u \<noteq> [] \<and> set u \<subseteq> Some ` set ps \<and>
               globSearch ?E loader basePath ps rs True =
                 Inl (UnmatchedSearchPatternsError basePath u ps rs)"
      by (rule globSearch_not_directory_True [OF ne nd])
  }
  show gm: "globMatch ?E basePath (Some p) = Inr False"
    by (rule globMatch_not_directory [OF nd])
  {
    assume a: "stat E (resolve E cwd q) = None \<and> isGlobPattern E (normalizeToPosix q) \<and>
          basePath = resolve E cwd (globParent E (normalizeToPosix q)) \<and> basePath \<noteq> []"
    let ?fp = "resolve E cwd q" and ?pat = "normalizeToPosix q"
    have glob: "isGlobPattern ?E ?pat" using a by (simp add: isGlobPattern_def)
    have base_ne: "basePath \<noteq> []" using a by blast
    have st: "stats_forEach ?E True cwd [q] =
        \<lparr>results = [], missingPatterns = [],
           searches = push_search basePath ?fp ?pat [(cwd, ([], []))]\<rparr>"
      using a glob by (simp add: stats_forEach_def forEach_body_cases)
    obtain u where u: "u \<noteq> []" "set u \<subseteq> Some ` set [?fp]"
      and gs: "globSearch ?E loader basePath [?fp] [?pat] True =
                 Inl (UnmatchedSearchPatternsError basePath u [?fp] [?pat])"
      using globSearch_not_directory_True [OF _ nd, of "[?fp]" loader "[?pat]"] by auto
    from u obtain rest where up: "u = Some ?fp # rest" by (cases u) auto
    from throwErrorForUnmatchedPatterns_first [of ?fp "[?fp]" "[?pat]" ?E basePath rest]
    have thr: "throwErrorForUnmatchedPatterns ?E basePath [?fp] [?pat] u =
                 NoFilesFoundError (Some ?pat) True"
      unfolding up by (auto simp: globMatch_not_directory [OF nd])
    have "globMultiSearch ?E loader (push_search basePath ?fp ?pat [(cwd, ([], []))]) True =
            Inl (NoFilesFoundError (Some ?pat) True)"
      using base_ne gs thr by (simp add: globMultiSearch_def normalizedSearches_single)
    then show "findFiles ?E loader [q] True cwd True = Inl (NoFilesFoundError (Some ?pat) True)"
      by (simp add: findFiles_def st)
  }
qed

theorem base_path_not_a_directory_witness:
  "hfs_isDirectory E0 ''/r/z'' = Inr False \<and>
   globSearch (E0\<lparr>hfs_list := (\<lambda>p. ReadFails ''EIO'')\<rparr>) L0 ''/r/z'' [''/r/z/*.js''] [''z/*.js''] False = Inr [] \<and>
   (\<exists>u. u \<noteq> [] \<and> set u \<subseteq> Some ` set [''/r/z/*.js''] \<and>
      globSearch (E0\<lparr>hfs_list := (\<lambda>p. ReadFails ''EIO'')\<rparr>) L0 ''/r/z'' [''/r/z/*.js''] [''z/*.js''] True =
        Inl (UnmatchedSearchPatternsError ''/r/z'' u [''/r/z/*.js''] [''z/*.js''])) \<and>
   globMatch (E0\<lparr>hfs_list := (\<lambda>p. ReadFails ''EIO'')\<rparr>) ''/r/z'' (Some ''/r/z/*.js'') = Inr False \<and>
   stat E0 (resolve E0 ''/r'' ''z/*.js'') = None \<and> isGlobPattern E0 (normalizeToPosix ''z/*.js'') \<and>
   ''/r/z'' = resolve E0 ''/r'' (globParent E0 (normalizeToPosix ''z/*.js'')) \<and>
   normalizeToPosix ''z/*.js'' = ''z/*.js'' \<and>
   findFiles (E0\<lparr>hfs_list := (\<lambda>p. ReadFails ''EIO'')\<rparr>) L0 [''z/*.js''] True ''/r'' True =
     Inl (NoFilesFoundError (Some (normalizeToPosix ''z/*.js'')) True)"
proof -
  have h1: "hfs_isDirectory E0 ''/r/z'' = Inr False" by code_simp
  have h2: "stat E0 (resolve E0 ''/r'' ''z/*.js'') = None \<and> isGlobPattern E0 (normalizeToPosix ''z/*.js'') \<and>
            ''/r/z'' = resolve E0 ''/r'' (globParent E0 (normalizeToPosix ''z/*.js'')) \<and> ''/r/z'' \<noteq> []"
    by code_simp
  have h3: "normalizeToPosix ''z/*.js'' = ''z/*.js''" by code_simp
  have h4: "[''/r/z/*.js''] \<noteq> []" by simp
  note t = base_path_not_a_directory [OF h1, where ls = "\<lambda>p. ReadFails ''EIO''" and loader = L0
      and ps = "[''/r/z/*.js'']" and rs = "[''z/*.js'']" and p = "''/r/z/*.js''" and q = "''z/*.js''"
      and cwd = "''/r''"]
  from t h1 h2 h3 h4 show ?thesis by blast
qed

end
